theory Spec2Isabelle
  imports Complex_Main "HOL-Library.Word" "HOL-Library.Log_Nat"
begin

section \<open>Private liquid staking: the ledger, its claim verifier and the reward oracle\<close>

text \<open>
  The development follows the repository: \<^verbatim>\<open>PrivateStaking.sol\<close> (the staking ledger
  with its commitment store and claim verifier), \<^verbatim>\<open>PLSToken.sol\<close> (the receipt token),
  the iApp \<^verbatim>\<open>src/app.js\<close> (the reward oracle) and \<^verbatim>\<open>frontend/src/lib/iexec.js\<close>
  (the confidential-compute client).

  A Solidity call either completes or reverts; a revert rolls the whole state back. So
  every operation is a function from the state to \<open>error + state\<close>, and \<open>Inl\<close> means
  that the state the call started from is the state afterwards.
\<close>

subsection \<open>Values of the EVM\<close>

type_synonym byte = "8 word"
type_synonym uint256 = "256 word"
type_synonym bytes32 = "256 word"
type_synonym address = "160 word"

text \<open>The \<open>k\<close> low bytes of a number, most significant first, and the number they spell.\<close>

fun be_bytes :: "nat \<Rightarrow> nat \<Rightarrow> byte list" where
  "be_bytes 0 v = []"
| "be_bytes (Suc k) v = be_bytes k (v div 256) @ [of_nat (v mod 256)]"

definition be_val :: "byte list \<Rightarrow> nat" where
  "be_val bs = foldl (\<lambda>acc b. acc * 256 + unat b) 0 bs"

text \<open>
  \<^verbatim>\<open>abi.encodePacked\<close> (Solidity) and \<^verbatim>\<open>ethers.solidityPacked\<close> (JavaScript) lay
  their arguments out without padding between them: a \<^verbatim>\<open>uint256\<close> and a
  \<^verbatim>\<open>bytes32\<close> take 32 bytes, an \<^verbatim>\<open>address\<close> 20, a string its own bytes.
\<close>

datatype abi_value =
    AUint256 uint256
  | ABytes32 bytes32
  | AAddress address
  | AString "byte list"

fun packed1 :: "abi_value \<Rightarrow> byte list" where
  "packed1 (AUint256 v) = be_bytes 32 (unat v)"
| "packed1 (ABytes32 v) = be_bytes 32 (unat v)"
| "packed1 (AAddress a) = be_bytes 20 (unat a)"
| "packed1 (AString s) = s"

definition encodePacked :: "abi_value list \<Rightarrow> byte list" where
  "encodePacked vs = concat (map packed1 vs)"

text \<open>
  The chain's primitives are parameters of the model: the hash \<^verbatim>\<open>keccak256\<close>, the
  elliptic-curve recovery behind the \<^verbatim>\<open>ecrecover\<close> precompile, the chain id and the
  ledger's own address (\<^verbatim>\<open>address(this)\<close>).
\<close>

record env =
  keccak256 :: "byte list \<Rightarrow> bytes32"
  ec_recover :: "bytes32 \<Rightarrow> byte \<Rightarrow> bytes32 \<Rightarrow> bytes32 \<Rightarrow> address"
  chainid :: uint256
  self :: address

text \<open>
  The precompile answers only for a recovery id of 27 or 28; for any other it returns
  no data, which Solidity's \<^verbatim>\<open>ecrecover\<close> reads as the zero address.
\<close>

definition ecrecover :: "env \<Rightarrow> bytes32 \<Rightarrow> byte \<Rightarrow> bytes32 \<Rightarrow> bytes32 \<Rightarrow> address" where
  "ecrecover e h v r s = (if v = 27 \<or> v = 28 then ec_recover e h v r s else 0)"

datatype error =
    ZeroAmount
  | CommitmentAlreadyExists
  | CommitmentNotFound
  | AlreadyClaimed
  | InvalidSignature
  | RequireFailed string
  | Panic
  | OnlyStakingContract
  | OwnableUnauthorizedAccount
  | ERC20InsufficientBalance
  | ERC20InsufficientAllowance
  | ERC20InvalidSender
  | ERC20InvalidReceiver

text \<open>Solidity 0.8 arithmetic reverts with a panic where the result leaves the type.\<close>

definition checked_add :: "uint256 \<Rightarrow> uint256 \<Rightarrow> error + uint256" where
  "checked_add a b = (if unat a + unat b < 2 ^ 256 then Inr (a + b) else Inl Panic)"

definition checked_sub :: "uint256 \<Rightarrow> uint256 \<Rightarrow> error + uint256" where
  "checked_sub a b = (if unat b \<le> unat a then Inr (a - b) else Inl Panic)"

subsection \<open>The tokens\<close>

text \<open>
  Modelled from the spec: the asset custody contract and the receipt token's base are
  OpenZeppelin's ERC20, which the repository imports and does not contain. The spec asks
  for the standard fungible-token transfer and approve interface whose failures
  (insufficient balance or allowance) propagate unchanged; the rules below are those:
  a transfer needs the balance, a transfer on behalf of an owner needs and spends the
  allowance (an unlimited allowance is not spent), minting needs room in the total supply.
\<close>

record erc20 =
  balanceOf :: "address \<Rightarrow> uint256"
  allowance :: "address \<Rightarrow> address \<Rightarrow> uint256"
  totalSupply :: uint256

definition erc20_mint :: "address \<Rightarrow> uint256 \<Rightarrow> erc20 \<Rightarrow> error + erc20" where
  "erc20_mint account v t =
     (if account = 0 then Inl ERC20InvalidReceiver
      else case checked_add (totalSupply t) v of
        Inl err \<Rightarrow> Inl err
      | Inr ts \<Rightarrow> Inr (t\<lparr>totalSupply := ts,
                         balanceOf := (balanceOf t)(account := balanceOf t account + v)\<rparr>))"

definition erc20_burn :: "address \<Rightarrow> uint256 \<Rightarrow> erc20 \<Rightarrow> error + erc20" where
  "erc20_burn account v t =
     (if account = 0 then Inl ERC20InvalidSender
      else if balanceOf t account < v then Inl ERC20InsufficientBalance
      else Inr (t\<lparr>balanceOf := (balanceOf t)(account := balanceOf t account - v),
                 totalSupply := totalSupply t - v\<rparr>))"

definition erc20_transfer :: "address \<Rightarrow> address \<Rightarrow> uint256 \<Rightarrow> erc20 \<Rightarrow> error + erc20" where
  "erc20_transfer from to v t =
     (if from = 0 then Inl ERC20InvalidSender
      else if to = 0 then Inl ERC20InvalidReceiver
      else if balanceOf t from < v then Inl ERC20InsufficientBalance
      else let b1 = (balanceOf t)(from := balanceOf t from - v)
           in Inr (t\<lparr>balanceOf := b1(to := b1 to + v)\<rparr>))"

definition erc20_transferFrom ::
  "address \<Rightarrow> address \<Rightarrow> address \<Rightarrow> uint256 \<Rightarrow> erc20 \<Rightarrow> error + erc20" where
  "erc20_transferFrom spender from to v t =
     (let a = allowance t from spender in
      if a = - 1 then erc20_transfer from to v t
      else if a < v then Inl ERC20InsufficientAllowance
      else erc20_transfer from to v
             (t\<lparr>allowance := (allowance t)(from := (allowance t from)(spender := a - v))\<rparr>))"

text \<open>
  \<^verbatim>\<open>PLSToken\<close>: an ERC20 whose \<^verbatim>\<open>mint\<close> and \<^verbatim>\<open>burn\<close> are open to one caller, the
  staking contract its owner has set.
\<close>

record pls_token =
  token :: erc20
  stakingContract :: address

definition pls_mint :: "address \<Rightarrow> address \<Rightarrow> uint256 \<Rightarrow> pls_token \<Rightarrow> error + pls_token" where
  "pls_mint caller to v p =
     (if caller \<noteq> stakingContract p then Inl OnlyStakingContract
      else case erc20_mint to v (token p) of
        Inl err \<Rightarrow> Inl err
      | Inr t \<Rightarrow> Inr (p\<lparr>token := t\<rparr>))"

definition pls_burn :: "address \<Rightarrow> address \<Rightarrow> uint256 \<Rightarrow> pls_token \<Rightarrow> error + pls_token" where
  "pls_burn caller from v p =
     (if caller \<noteq> stakingContract p then Inl OnlyStakingContract
      else case erc20_burn from v (token p) of
        Inl err \<Rightarrow> Inl err
      | Inr t \<Rightarrow> Inr (p\<lparr>token := t\<rparr>))"

subsection \<open>The staking ledger\<close>

text \<open>
  The storage of \<^verbatim>\<open>PrivateStaking\<close>, together with the state of the two token contracts
  it calls. A Solidity mapping is a total function whose default is the zero value.
  \<^verbatim>\<open>nonReentrant\<close> keeps a flag that is clear whenever no call is in progress; the
  tokens modelled here never call back, so the flag is clear at every call and is left out.
\<close>

record world =
  owner :: address
  teeOracle :: address
  totalStaked :: uint256
  stakeCommitments :: "bytes32 \<Rightarrow> bool"
  userCommitments :: "address \<Rightarrow> bytes32 list"
  claimedRewards :: "bytes32 \<Rightarrow> bool"
  nonces :: "address \<Rightarrow> uint256"
  plsToken :: pls_token
  stakingAsset :: erc20

text \<open>The state the constructors leave: empty mappings, no oracle, the deployer as owner.\<close>

definition deployed :: "address \<Rightarrow> pls_token \<Rightarrow> erc20 \<Rightarrow> world" where
  "deployed deployer p a =
     \<lparr>owner = deployer, teeOracle = 0, totalStaked = 0,
      stakeCommitments = (\<lambda>_. False), userCommitments = (\<lambda>_. []),
      claimedRewards = (\<lambda>_. False), nonces = (\<lambda>_. 0),
      plsToken = p, stakingAsset = a\<rparr>"

definition setTEEOracle :: "address \<Rightarrow> address \<Rightarrow> world \<Rightarrow> error + world" where
  "setTEEOracle sender oracle w =
     (if sender \<noteq> owner w then Inl OwnableUnauthorizedAccount
      else Inr (w\<lparr>teeOracle := oracle\<rparr>))"

text \<open>\<^verbatim>\<open>keccak256(abi.encodePacked(amount, salt, msg.sender))\<close>, as \<^verbatim>\<open>stake\<close> and
  \<^verbatim>\<open>unstake\<close> compute it.\<close>

definition commitment_of :: "env \<Rightarrow> address \<Rightarrow> uint256 \<Rightarrow> bytes32 \<Rightarrow> bytes32" where
  "commitment_of e sender amount salt =
     keccak256 e (encodePacked [AUint256 amount, ABytes32 salt, AAddress sender])"

definition stake :: "env \<Rightarrow> address \<Rightarrow> uint256 \<Rightarrow> bytes32 \<Rightarrow> world \<Rightarrow> error + bytes32 \<times> world" where
  "stake e sender amount salt w =
     (if amount = 0 then Inl ZeroAmount
      else let commitment = commitment_of e sender amount salt in
        if stakeCommitments w commitment then Inl CommitmentAlreadyExists
        else case erc20_transferFrom (self e) sender (self e) amount (stakingAsset w) of
          Inl err \<Rightarrow> Inl err
        | Inr asset \<Rightarrow>
            (case checked_add (totalStaked w) amount of
               Inl err \<Rightarrow> Inl err
             | Inr newTotal \<Rightarrow>
                 (case pls_mint (self e) sender amount (plsToken w) of
                    Inl err \<Rightarrow> Inl err
                  | Inr pls \<Rightarrow>
                      Inr (commitment,
                           w\<lparr>stakingAsset := asset,
                             stakeCommitments := (stakeCommitments w)(commitment := True),
                             userCommitments := (userCommitments w)
                               (sender := userCommitments w sender @ [commitment]),
                             totalStaked := newTotal,
                             plsToken := pls\<rparr>))))"

text \<open>
  \<^verbatim>\<open>_removeCommitment\<close>: the loop looks for the first index holding the commitment,
  overwrites it with the last element and pops the array.
\<close>

function removeCommitment_from :: "nat \<Rightarrow> bytes32 list \<Rightarrow> bytes32 \<Rightarrow> bytes32 list" where
  "removeCommitment_from i commitments commitment =
     (if i < length commitments then
        if commitments ! i = commitment
        then butlast (commitments[i := commitments ! (length commitments - 1)])
        else removeCommitment_from (Suc i) commitments commitment
      else commitments)"
  by pat_completeness auto
termination
  by (relation "measure (\<lambda>(i, commitments, commitment). length commitments - i)") auto

definition removeCommitment :: "bytes32 list \<Rightarrow> bytes32 \<Rightarrow> bytes32 list" where
  "removeCommitment commitments commitment = removeCommitment_from 0 commitments commitment"

definition unstake :: "env \<Rightarrow> address \<Rightarrow> uint256 \<Rightarrow> bytes32 \<Rightarrow> world \<Rightarrow> error + world" where
  "unstake e sender amount salt w =
     (let commitment = commitment_of e sender amount salt in
      if \<not> stakeCommitments w commitment then Inl CommitmentNotFound
      else case pls_burn (self e) sender amount (plsToken w) of
        Inl err \<Rightarrow> Inl err
      | Inr pls \<Rightarrow>
          (case checked_sub (totalStaked w) amount of
             Inl err \<Rightarrow> Inl err
           | Inr newTotal \<Rightarrow>
               (case erc20_transfer (self e) sender amount (stakingAsset w) of
                  Inl err \<Rightarrow> Inl err
                | Inr asset \<Rightarrow>
                    Inr (w\<lparr>stakeCommitments := (stakeCommitments w)(commitment := False),
                           userCommitments := (userCommitments w)
                             (sender := removeCommitment (userCommitments w sender) commitment),
                           plsToken := pls,
                           totalStaked := newTotal,
                           stakingAsset := asset\<rparr>))))"

subsection \<open>The claim verifier\<close>

text \<open>The bytes of the literal \<^verbatim>\<open>"\x19Ethereum Signed Message:\n32"\<close>.\<close>

definition eth_prefix :: "byte list" where
  "eth_prefix = 25 # map (\<lambda>c. of_nat (of_char c)) ''Ethereum Signed Message:'' @ [10, 51, 50]"

definition messageHash :: "env \<Rightarrow> address \<Rightarrow> uint256 \<Rightarrow> bytes32 \<Rightarrow> uint256 \<Rightarrow> bytes32" where
  "messageHash e sender amount proofHash nonce =
     keccak256 e (encodePacked
       [AAddress sender, AUint256 amount, ABytes32 proofHash, AUint256 nonce,
        AUint256 (chainid e), AAddress (self e)])"

definition ethSignedHash :: "env \<Rightarrow> bytes32 \<Rightarrow> bytes32" where
  "ethSignedHash e h = keccak256 e (encodePacked [AString eth_prefix, ABytes32 h])"

text \<open>
  \<^verbatim>\<open>_recoverSigner\<close>: the signature must be 65 bytes, \<open>r\<close>, \<open>s\<close> and the byte \<open>v\<close>;
  a \<open>v\<close> below 27 is raised by 27 (it is a \<^verbatim>\<open>uint8\<close>, and 26 + 27 fits). What
  \<^verbatim>\<open>ecrecover\<close> returns is returned as it is.
\<close>

definition recoverSigner :: "env \<Rightarrow> bytes32 \<Rightarrow> byte list \<Rightarrow> error + address" where
  "recoverSigner e h signature =
     (if length signature \<noteq> 65 then Inl (RequireFailed ''Invalid signature length'')
      else let r = of_nat (be_val (take 32 signature));
               s = of_nat (be_val (take 32 (drop 32 signature)));
               v0 = signature ! 64;
               v = (if v0 < 27 then v0 + 27 else v0)
           in Inr (ecrecover e h v r s))"

definition claimRewards ::
  "env \<Rightarrow> address \<Rightarrow> uint256 \<Rightarrow> bytes32 \<Rightarrow> byte list \<Rightarrow> world \<Rightarrow> error + world" where
  "claimRewards e sender amount proofHash signature w =
     (if claimedRewards w proofHash then Inl AlreadyClaimed
      else case recoverSigner e
                  (ethSignedHash e (messageHash e sender amount proofHash (nonces w sender)))
                  signature of
        Inl err \<Rightarrow> Inl err
      | Inr signer \<Rightarrow>
          (if signer \<noteq> teeOracle w then Inl InvalidSignature
           else (case checked_add (nonces w sender) 1 of
                   Inl err \<Rightarrow> Inl err
                 | Inr n \<Rightarrow>
                     (case pls_mint (self e) sender amount (plsToken w) of
                        Inl err \<Rightarrow> Inl err
                      | Inr pls \<Rightarrow>
                          Inr (w\<lparr>claimedRewards := (claimedRewards w)(proofHash := True),
                                 nonces := (nonces w)(sender := n),
                                 plsToken := pls\<rparr>)))))"

text \<open>
  A transaction to the ledger. Executing one that reverts leaves the state as it was.
\<close>

datatype tx =
    Stake address uint256 bytes32
  | Unstake address uint256 bytes32
  | ClaimRewards address uint256 bytes32 "byte list"
  | SetTEEOracle address address

fun call :: "env \<Rightarrow> tx \<Rightarrow> world \<Rightarrow> error + world" where
  "call e (Stake sender amount salt) w = map_sum id snd (stake e sender amount salt w)"
| "call e (Unstake sender amount salt) w = unstake e sender amount salt w"
| "call e (ClaimRewards sender amount proofHash signature) w =
     claimRewards e sender amount proofHash signature w"
| "call e (SetTEEOracle sender oracle) w = setTEEOracle sender oracle w"

definition exec :: "env \<Rightarrow> tx \<Rightarrow> world \<Rightarrow> world" where
  "exec e t w = (case call e t w of Inl err \<Rightarrow> w | Inr w' \<Rightarrow> w')"

fun run :: "env \<Rightarrow> tx list \<Rightarrow> world \<Rightarrow> world" where
  "run e [] w = w"
| "run e (t # ts) w = run e ts (exec e t w)"

subsection \<open>A concrete deployment\<close>

text \<open>
  A small deployment on which the theorems below are exercised. The hash adds up the
  bytes of its input, and the curve is replaced by a toy scheme in which a signature's
  \<open>r\<close> names the signer and its \<open>s\<close> the digest that was signed. Account 1 deploys,
  the ledger lives at address 9, account 3 holds 1000 units of the asset and has
  approved the ledger for them, and the oracle is account 7.
\<close>

definition demo_env :: env where
  "demo_env = \<lparr>keccak256 = (\<lambda>bs. of_nat (sum_list (map unat bs))),
                ec_recover = (\<lambda>h v r s. if s = h then ucast r else 0),
                chainid = 42161, self = 9\<rparr>"

definition demo_asset :: erc20 where
  "demo_asset = \<lparr>balanceOf = (\<lambda>a. if a = 3 then 1000 else 0),
                  allowance = (\<lambda>a b. if a = 3 \<and> b = 9 then 1000 else 0),
                  totalSupply = 1000\<rparr>"

definition demo_pls :: pls_token where
  "demo_pls = \<lparr>token = \<lparr>balanceOf = (\<lambda>a. 0), allowance = (\<lambda>a b. 0), totalSupply = 0\<rparr>,
                stakingContract = 9\<rparr>"

definition demo_world :: world where
  "demo_world = (deployed 1 demo_pls demo_asset)\<lparr>teeOracle := 7\<rparr>"

text \<open>The state after account 3 has staked 100 with salt 5 in \<open>demo_world\<close>.\<close>

definition demo_staked :: world where
  "demo_staked = demo_world
     \<lparr>stakingAsset := \<lparr>balanceOf = (\<lambda>a. if a = 3 then 900 else if a = 9 then 100 else 0),
                        allowance = (\<lambda>a b. if a = 3 \<and> b = 9 then 900 else 0),
                        totalSupply = 1000\<rparr>,
      stakeCommitments := (\<lambda>c. c = 108),
      userCommitments := (\<lambda>u. if u = 3 then [108] else []),
      totalStaked := 100,
      plsToken := \<lparr>token = \<lparr>balanceOf = (\<lambda>a. if a = 3 then 100 else 0),
                             allowance = (\<lambda>a b. 0), totalSupply = 100\<rparr>,
                    stakingContract = 9\<rparr>\<rparr>"

text \<open>The oracle's signature, in the toy scheme, on account 3's claim of 20 with proof
  hash 11 at the given nonce.\<close>

definition demo_signature :: "uint256 \<Rightarrow> byte list" where
  "demo_signature nonce =
     be_bytes 32 (unat (7 :: bytes32))
     @ be_bytes 32 (unat (ethSignedHash demo_env (messageHash demo_env 3 20 11 nonce)))
     @ [27]"

text \<open>A run on the fresh deployment: the owner sets the oracle, account 3 stakes twice,
  claims a reward and closes the first position.\<close>

definition demo_txs :: "tx list" where
  "demo_txs = [SetTEEOracle 1 7, Stake 3 100 5, Stake 3 50 6,
               ClaimRewards 3 20 11 (demo_signature 0), Unstake 3 100 5]"

subsection \<open>What is assumed of the hash and of signatures\<close>

text \<open>
  Two byte strings collide when they differ and hash to the same value. A signature
  speaks for one of two digests when it does not recover to the signer from both of them,
  unless they are the same digest: a signature the signer made over one digest is not also
  a signature of theirs over the other. Theorems that depend on the cryptography name
  these as hypotheses, for the byte strings, the signature and the two digests at hand.
\<close>

definition collide :: "env \<Rightarrow> byte list \<Rightarrow> byte list \<Rightarrow> bool" where
  "collide e x y \<longleftrightarrow> x \<noteq> y \<and> keccak256 e x = keccak256 e y"

definition speaks_for_one :: "env \<Rightarrow> address \<Rightarrow> byte list \<Rightarrow> bytes32 \<Rightarrow> bytes32 \<Rightarrow> bool" where
  "speaks_for_one e a sg h h' \<longleftrightarrow>
     (recoverSigner e h sg = Inr a \<and> recoverSigner e h' sg = Inr a \<longrightarrow> h = h')"

text \<open>The byte strings \<^verbatim>\<open>claimRewards\<close> hashes: the claim message and its prefixed hash.\<close>

definition claim_message :: "env \<Rightarrow> address \<Rightarrow> uint256 \<Rightarrow> bytes32 \<Rightarrow> uint256 \<Rightarrow> byte list" where
  "claim_message e sender amount proofHash nonce =
     encodePacked [AAddress sender, AUint256 amount, ABytes32 proofHash, AUint256 nonce,
                   AUint256 (chainid e), AAddress (self e)]"

definition signed_message :: "bytes32 \<Rightarrow> byte list" where
  "signed_message h = encodePacked [AString eth_prefix, ABytes32 h]"

subsection \<open>The positions behind the commitments\<close>

text \<open>
  The ledger stores commitments, never amounts. To speak of the amounts underlying the
  commitments that are present, the positions (owner, amount, salt) opened by successful
  stakes and not yet closed by a successful unstake are tracked beside a run. The
  tracking reads the ledger's outcomes and changes nothing in them.
\<close>

type_synonym position = "address \<times> uint256 \<times> bytes32"

definition position_commitment :: "env \<Rightarrow> position \<Rightarrow> bytes32" where
  "position_commitment e pos = (case pos of (u, a, s) \<Rightarrow> commitment_of e u a s)"

definition position_amount :: "position \<Rightarrow> nat" where
  "position_amount pos = (case pos of (u, a, s) \<Rightarrow> unat a)"

fun track :: "env \<Rightarrow> tx \<Rightarrow> world \<Rightarrow> position list \<Rightarrow> position list" where
  "track e (Stake u a s) w ps =
     (case stake e u a s w of Inl err \<Rightarrow> ps | Inr r \<Rightarrow> ps @ [(u, a, s)])"
| "track e (Unstake u a s) w ps =
     (case unstake e u a s w of Inl err \<Rightarrow> ps | Inr w' \<Rightarrow> remove1 (u, a, s) ps)"
| "track e (ClaimRewards u a p sg) w ps = ps"
| "track e (SetTEEOracle u orc) w ps = ps"

fun positions :: "env \<Rightarrow> tx list \<Rightarrow> world \<Rightarrow> position list \<Rightarrow> position list" where
  "positions e [] w ps = ps"
| "positions e (t # ts) w ps = positions e ts (exec e t w) (track e t w ps)"

text \<open>The positions a transaction names.\<close>

fun named :: "tx \<Rightarrow> position set" where
  "named (Stake u a s) = {(u, a, s)}"
| "named (Unstake u a s) = {(u, a, s)}"
| "named (ClaimRewards u a p sg) = {}"
| "named (SetTEEOracle u orc) = {}"

text \<open>
  The bookkeeping invariant: the commitments of the open positions are pairwise
  different, they are exactly the commitments marked present, \<^verbatim>\<open>totalStaked\<close> is the
  sum of the open positions' amounts, and each owner's array lists, without repetition,
  exactly the commitments of that owner's open positions.
\<close>

definition ledger_inv :: "env \<Rightarrow> world \<Rightarrow> position list \<Rightarrow> bool" where
  "ledger_inv e w ps \<longleftrightarrow>
     distinct (map (position_commitment e) ps)
   \<and> (\<forall>c. stakeCommitments w c \<longleftrightarrow> c \<in> position_commitment e ` set ps)
   \<and> unat (totalStaked w) = sum_list (map position_amount ps)
   \<and> (\<forall>u. distinct (userCommitments w u)
          \<and> set (userCommitments w u) = position_commitment e ` {pos \<in> set ps. fst pos = u})"

subsection \<open>JavaScript numbers\<close>

text \<open>
  The oracle and its client are JavaScript, whose numbers are binary64 floating-point
  values. A finite value is a rational; each arithmetic operation returns the exact
  result rounded to 53 significant bits, to nearest and ties to even. \<open>expo x\<close> is the
  exponent of the binade of \<open>x\<close>: \<open>2 ^ expo x \<le> \<bar>x\<bar> < 2 ^ (expo x + 1)\<close>. The limits of
  the exponent (overflow to infinity beyond about \<open>1.8e308\<close>, subnormals below about
  \<open>2.2e-308\<close>) and \<^verbatim>\<open>NaN\<close> are left out: the model is of finite numbers in the normal
  range.
\<close>

definition round_half_even :: "rat \<Rightarrow> int" where
  "round_half_even y =
     (let f = \<lfloor>y\<rfloor>; d = y - of_int f in
      if d < 1 / 2 then f
      else if 1 / 2 < d then f + 1
      else if even f then f else f + 1)"

definition expo :: "rat \<Rightarrow> int" where
  "expo x = (if 1 \<le> \<bar>x\<bar> then bitlen \<lfloor>\<bar>x\<bar>\<rfloor> - 1 else - bitlen (\<lceil>1 / \<bar>x\<bar>\<rceil> - 1))"

definition round64 :: "rat \<Rightarrow> rat" where
  "round64 x =
     (if x = 0 then 0
      else let u = 2 powi (expo x - 52) in u * of_int (round_half_even (x / u)))"

definition js_mul :: "rat \<Rightarrow> rat \<Rightarrow> rat" where
  "js_mul a b = round64 (a * b)"

definition js_div :: "rat \<Rightarrow> rat \<Rightarrow> rat" where
  "js_div a b = round64 (a / b)"

definition js_sub :: "rat \<Rightarrow> rat \<Rightarrow> rat" where
  "js_sub a b = round64 (a - b)"

definition js_add :: "rat \<Rightarrow> rat \<Rightarrow> rat" where
  "js_add a b = round64 (a + b)"

text \<open>
  A number that is written in the input (a JSON numeral, or a numeric string that an
  arithmetic operator converts) is read as the nearest binary64 value; that is the value
  the program computes with. A value that is a binary64 number already is read as itself.
\<close>

definition num :: "rat \<Rightarrow> rat" where
  "num x = round64 x"

subsection \<open>The reward oracle\<close>

text \<open>
  \<^verbatim>\<open>calculateRewards\<close> of the iApp. The reward is the expression
  \<^verbatim>\<open>Math.floor((amount * baseAPY * timeStaked) / (10000 * SECONDS_PER_YEAR))\<close>, each
  operation on JavaScript numbers and from left to right.
\<close>

definition SECONDS_PER_YEAR :: rat where
  "SECONDS_PER_YEAR = js_mul (js_mul (js_mul 365 24) 60) 60"

definition timeStaked_of :: "rat \<Rightarrow> rat \<Rightarrow> rat" where
  "timeStaked_of currentTimestamp stakeTimestamp =
     js_sub (num currentTimestamp) (num stakeTimestamp)"

definition rewards_of :: "rat \<Rightarrow> rat \<Rightarrow> rat \<Rightarrow> rat \<Rightarrow> int" where
  "rewards_of amount stakeTimestamp currentTimestamp baseAPY =
     (let timeStaked = timeStaked_of currentTimestamp stakeTimestamp in
      \<lfloor>js_div (js_mul (js_mul (num amount) (num baseAPY)) timeStaked)
             (js_mul 10000 SECONDS_PER_YEAR)\<rfloor>)"

text \<open>
  The reward in the spec's words: the floor, in exact arithmetic, of
  \<open>amount * baseAPYBasisPoints * timeStaked / (10000 * secondsPerYear)\<close> with
  \<open>secondsPerYear = 365 * 24 * 60 * 60\<close>.
\<close>

definition spec_reward :: "rat \<Rightarrow> rat \<Rightarrow> rat \<Rightarrow> int" where
  "spec_reward amount baseAPYBasisPoints timeStaked =
     \<lfloor>amount * baseAPYBasisPoints * timeStaked / (10000 * (365 * 24 * 60 * 60))\<rfloor>"

text \<open>
  An element of the oracle's input as JSON delivers it: \<^verbatim>\<open>null\<close>, or an object with
  \<^verbatim>\<open>amount\<close>, \<^verbatim>\<open>stakeTimestamp\<close> and \<^verbatim>\<open>userAddress\<close>, where a \<^verbatim>\<open>userAddress\<close> that is
  no address is \<open>None\<close>.
\<close>

datatype stake_data = Null | StakeData rat rat "address option"

datatype js_error = TypeError | InvalidAddress | ValueOutOfBounds | Error string

text \<open>
  The proof hash is \<^verbatim>\<open>keccak256\<close> of the standard ABI encoding of
  \<^verbatim>\<open>(address, uint256, uint256, string)\<close>. The encoder is the ethers library's, outside
  the repository; it throws on a value that is no address, and on a number that is
  negative, fractional or beyond \<open>2 ^ 53 - 1\<close> where a \<^verbatim>\<open>uint256\<close> is expected. Each static
  value takes a 32-byte word; the string follows as its length and its bytes padded to
  whole words.
\<close>

definition is_safe_uint :: "rat \<Rightarrow> bool" where
  "is_safe_uint x \<longleftrightarrow> of_int \<lfloor>x\<rfloor> = x \<and> 0 \<le> x \<and> x \<le> 2 ^ 53 - 1"

definition abi_encode_proof ::
  "address option \<Rightarrow> int \<Rightarrow> rat \<Rightarrow> byte list \<Rightarrow> js_error + byte list" where
  "abi_encode_proof userAddress rewards timestamp nonce =
     (case userAddress of
        None \<Rightarrow> Inl InvalidAddress
      | Some a \<Rightarrow>
          if \<not> is_safe_uint (of_int rewards) then Inl ValueOutOfBounds
          else if \<not> is_safe_uint timestamp then Inl ValueOutOfBounds
          else Inr (be_bytes 32 (unat a) @ be_bytes 32 (nat rewards)
                    @ be_bytes 32 (nat \<lfloor>timestamp\<rfloor>) @ be_bytes 32 128
                    @ be_bytes 32 (length nonce) @ nonce
                    @ replicate ((32 - length nonce mod 32) mod 32) 0))"

record reward =
  rewards :: int
  proofHash :: bytes32
  proofData :: "address option \<times> int \<times> rat \<times> byte list"

text \<open>The fresh randomness of \<^verbatim>\<open>crypto.randomBytes\<close> is the argument \<open>nonce\<close>.\<close>

definition calculateRewards ::
  "env \<Rightarrow> byte list \<Rightarrow> stake_data \<Rightarrow> rat \<Rightarrow> rat \<Rightarrow> js_error + reward" where
  "calculateRewards e nonce stakeData currentTimestamp baseAPY =
     (case stakeData of
        Null \<Rightarrow> Inl TypeError
      | StakeData amount stakeTimestamp userAddress \<Rightarrow>
          (let r = rewards_of amount stakeTimestamp currentTimestamp baseAPY;
               timestamp = num currentTimestamp
           in case abi_encode_proof userAddress r timestamp nonce of
                Inl err \<Rightarrow> Inl err
              | Inr bytes \<Rightarrow>
                  Inr \<lparr>rewards = r, proofHash = keccak256 e bytes,
                       proofData = (userAddress, r, timestamp, nonce)\<rparr>))"

subsection \<open>The commitment check of the oracle\<close>

text \<open>
  The values the oracle receives are those of its JSON input, and \<^verbatim>\<open>undefined\<close> for a
  property that is absent.
\<close>

datatype js_value =
    JUndefined
  | JNull
  | JBool bool
  | JNumber rat
  | JString string
  | JArray "js_value list"
  | JObject "(string \<times> js_value) list"

text \<open>
  The second argument of \<^verbatim>\<open>verifyCommitment\<close> is destructured into \<^verbatim>\<open>amount\<close>,
  \<^verbatim>\<open>salt\<close> and \<^verbatim>\<open>userAddress\<close>: \<open>NullReveal\<close> is \<^verbatim>\<open>null\<close> or \<^verbatim>\<open>undefined\<close>, on which
  destructuring throws, and \<open>RevealData\<close> carries the three values found.
\<close>

datatype reveal_data = NullReveal | RevealData js_value js_value js_value

text \<open>
  The bytes are made by the ethers library, outside the repository:
  \<^verbatim>\<open>solidityPacked(['uint256', 'bytes32', 'address'], [amount, salt, userAddress])\<close>
  reads each value at its Solidity type, in this order, and throws at the first it does
  not accept. How the library reads a value at a type is a parameter of the model, \<open>Inl\<close>
  what it throws. The library's packing and hash are taken to be the ledger's
  \<^verbatim>\<open>abi.encodePacked\<close> and \<^verbatim>\<open>keccak256\<close>: what is read is packed in 32, 32 and 20
  bytes and hashed by the same function. The hash comes back as text: \<^verbatim>\<open>0x\<close> and 64
  hexadecimal digits in lower case.
\<close>

record ethers =
  read_uint256 :: "js_value \<Rightarrow> js_error + uint256"
  read_bytes32 :: "js_value \<Rightarrow> js_error + bytes32"
  read_address :: "js_value \<Rightarrow> js_error + address"

definition solidityPacked_commitment ::
  "ethers \<Rightarrow> js_value \<Rightarrow> js_value \<Rightarrow> js_value \<Rightarrow> js_error + byte list" where
  "solidityPacked_commitment lib amount salt userAddress =
     (case read_uint256 lib amount of
        Inl err \<Rightarrow> Inl err
      | Inr a \<Rightarrow>
          (case read_bytes32 lib salt of
             Inl err \<Rightarrow> Inl err
           | Inr s \<Rightarrow>
               (case read_address lib userAddress of
                  Inl err \<Rightarrow> Inl err
                | Inr u \<Rightarrow> Inr (encodePacked [AUint256 a, ABytes32 s, AAddress u]))))"

definition hex_digit :: "nat \<Rightarrow> char" where
  "hex_digit n = ''0123456789abcdef'' ! n"

definition hexlify :: "byte list \<Rightarrow> string" where
  "hexlify bs =
     ''0x'' @ concat (map (\<lambda>b. [hex_digit (unat b div 16), hex_digit (unat b mod 16)]) bs)"

definition hex_of_bytes32 :: "bytes32 \<Rightarrow> string" where
  "hex_of_bytes32 h = hexlify (be_bytes 32 (unat h))"

text \<open>
  \<^verbatim>\<open>verifyCommitment\<close> of the iApp: \<^verbatim>\<open>commitment === computedCommitment\<close> is true
  exactly when \<^verbatim>\<open>commitment\<close> is a string and is, character by character, the text of
  the computed hash. The function has no state to read or write.
\<close>

definition verifyCommitment ::
  "ethers \<Rightarrow> env \<Rightarrow> js_value \<Rightarrow> reveal_data \<Rightarrow> js_error + bool" where
  "verifyCommitment lib e commitment revealData =
     (case revealData of
        NullReveal \<Rightarrow> Inl TypeError
      | RevealData amount salt userAddress \<Rightarrow>
          (case solidityPacked_commitment lib amount salt userAddress of
             Inl err \<Rightarrow> Inl err
           | Inr packed \<Rightarrow>
               (let computedCommitment = hex_of_bytes32 (keccak256 e packed)
                in Inr (commitment = JString computedCommitment))))"

text \<open>
  The commitment hash in the spec's words: the hash of the tightly packed encoding of
  \<^verbatim>\<open>(uint256 amount, bytes32 salt, address owner)\<close>, that is of 32, 32 and 20 bytes.
\<close>

definition spec_commitment_hash :: "env \<Rightarrow> uint256 \<Rightarrow> bytes32 \<Rightarrow> address \<Rightarrow> bytes32" where
  "spec_commitment_hash e amount salt ownerAddress =
     keccak256 e
       (be_bytes 32 (unat amount) @ be_bytes 32 (unat salt) @ be_bytes 20 (unat ownerAddress))"

text \<open>
  Reading the text of a hash back: \<^verbatim>\<open>0x\<close> and 64 hexadecimal digits, in either case,
  denote 32 bytes. This is how a commitment that arrives as text names a hash.
\<close>

definition hex_value :: "char \<Rightarrow> nat option" where
  "hex_value c =
     (let n = of_char c :: nat in
      if 48 \<le> n \<and> n \<le> 57 then Some (n - 48)
      else if 97 \<le> n \<and> n \<le> 102 then Some (n - 87)
      else if 65 \<le> n \<and> n \<le> 70 then Some (n - 55)
      else None)"

fun unhex :: "string \<Rightarrow> byte list option" where
  "unhex [] = Some []"
| "unhex [c] = None"
| "unhex (c # d # cs) =
     (case (hex_value c, hex_value d, unhex cs) of
        (Some h, Some l, Some bs) \<Rightarrow> Some (of_nat (16 * h + l) # bs)
      | _ \<Rightarrow> None)"

definition bytes_of_hex :: "nat \<Rightarrow> string \<Rightarrow> byte list option" where
  "bytes_of_hex n s =
     (if take 2 s = ''0x'' \<and> length s = 2 + 2 * n then unhex (drop 2 s) else None)"

definition bytes32_of_hex :: "string \<Rightarrow> bytes32 option" where
  "bytes32_of_hex s = map_option (\<lambda>bs. of_nat (be_val bs)) (bytes_of_hex 32 s)"

text \<open>
  A reader for the examples below. It accepts only what the library accepts and reads it
  as the library does: a number written as an integer from 0 to \<open>2 ^ 53 - 1\<close> as
  \<^verbatim>\<open>uint256\<close>, the text \<^verbatim>\<open>0x\<close> and 64 hexadecimal digits as \<^verbatim>\<open>bytes32\<close>, and the
  text \<^verbatim>\<open>0x\<close> and 40 hexadecimal digits without capitals as an address. On every other
  value it throws. So does the library on an integer beyond \<open>2 ^ 53 - 1\<close> given as a
  number, which is no safe integer; of the rest the library accepts some (a decimal
  string as a number, an address with a checksum in capitals).
\<close>

definition demo_ethers :: ethers where
  "demo_ethers =
     \<lparr>read_uint256 = (\<lambda>v. case v of
          JNumber x \<Rightarrow> if is_safe_uint x then Inr (of_int \<lfloor>x\<rfloor>) else Inl ValueOutOfBounds
        | _ \<Rightarrow> Inl (Error ''invalid BigNumberish value'')),
      read_bytes32 = (\<lambda>v. case v of
          JString s \<Rightarrow> (case bytes32_of_hex s of
                          Some h \<Rightarrow> Inr h
                        | None \<Rightarrow> Inl (Error ''invalid BytesLike value''))
        | _ \<Rightarrow> Inl (Error ''invalid BytesLike value'')),
      read_address = (\<lambda>v. case v of
          JString s \<Rightarrow> (case bytes_of_hex 20 s of
                          Some bs \<Rightarrow> if s = hexlify bs then Inr (of_nat (be_val bs))
                                     else Inl InvalidAddress
                        | None \<Rightarrow> Inl InvalidAddress)
        | _ \<Rightarrow> Inl InvalidAddress)\<rparr>"

text \<open>
  Account 3's position of 100 with salt 5 as the oracle is given it, and the text of
  its commitment 108, in the library's spelling and with a capital digit.
\<close>

definition demo_salt_text :: string where
  "demo_salt_text = ''0x0000000000000000000000000000000000000000000000000000000000000005''"

definition demo_owner_text :: string where
  "demo_owner_text = ''0x0000000000000000000000000000000000000003''"

definition demo_commitment_text :: string where
  "demo_commitment_text = ''0x000000000000000000000000000000000000000000000000000000000000006c''"

definition demo_commitment_capital :: string where
  "demo_commitment_capital = ''0x000000000000000000000000000000000000000000000000000000000000006C''"

definition demo_reveal :: reveal_data where
  "demo_reveal = RevealData (JNumber 100) (JString demo_salt_text) (JString demo_owner_text)"

text \<open>
  A position of \<open>2 ^ 53\<close> with the same salt and owner, the amount given as a number, and
  the text of the commitment 40 that the ledger computes for it.
\<close>

definition demo_large_reveal :: reveal_data where
  "demo_large_reveal =
     RevealData (JNumber 9007199254740992) (JString demo_salt_text) (JString demo_owner_text)"

definition demo_large_text :: string where
  "demo_large_text = ''0x0000000000000000000000000000000000000000000000000000000000000028''"

text \<open>
  The bulk action of \<^verbatim>\<open>main\<close>. Each element is computed inside \<^verbatim>\<open>try\<close>; the handler
  builds the failure entry from \<^verbatim>\<open>stakeData.userAddress\<close> and the error. Reading a
  property of \<^verbatim>\<open>null\<close> throws, and what the handler throws leaves \<^verbatim>\<open>map\<close> and ends
  \<^verbatim>\<open>main\<close> without a result.
\<close>

datatype bulk_entry =
    BulkSuccess "address option" reward
  | BulkFailure "address option" js_error

definition bulk_element ::
  "env \<Rightarrow> byte list \<Rightarrow> stake_data \<Rightarrow> rat \<Rightarrow> rat \<Rightarrow> js_error + bulk_entry" where
  "bulk_element e nonce stakeData timestamp apy =
     (case calculateRewards e nonce stakeData timestamp apy of
        Inr rewardResult \<Rightarrow>
          (case stakeData of
             Null \<Rightarrow> Inl TypeError
           | StakeData amount stakeTimestamp userAddress \<Rightarrow>
               Inr (BulkSuccess userAddress rewardResult))
      | Inl err \<Rightarrow>
          (case stakeData of
             Null \<Rightarrow> Inl TypeError
           | StakeData amount stakeTimestamp userAddress \<Rightarrow>
               Inr (BulkFailure userAddress err)))"

text \<open>\<^verbatim>\<open>Array.prototype.map\<close> with a callback that may throw: the first throw ends it.\<close>

fun bulk_map ::
  "env \<Rightarrow> (nat \<Rightarrow> byte list) \<Rightarrow> nat \<Rightarrow> stake_data list \<Rightarrow> rat \<Rightarrow> rat
     \<Rightarrow> js_error + bulk_entry list" where
  "bulk_map e rand i [] timestamp apy = Inr []"
| "bulk_map e rand i (stakeData # rest) timestamp apy =
     (case bulk_element e (rand i) stakeData timestamp apy of
        Inl err \<Rightarrow> Inl err
      | Inr r \<Rightarrow>
          (case bulk_map e rand (Suc i) rest timestamp apy of
             Inl err \<Rightarrow> Inl err
           | Inr rs \<Rightarrow> Inr (r # rs)))"

fun is_success :: "bulk_entry \<Rightarrow> bool" where
  "is_success (BulkSuccess u r) = True"
| "is_success (BulkFailure u err) = False"

fun entry_rewards :: "bulk_entry \<Rightarrow> rat" where
  "entry_rewards (BulkSuccess u r) = of_int (rewards r)"
| "entry_rewards (BulkFailure u err) = 0"

record summary =
  total :: nat
  successful :: nat
  failed :: nat
  totalRewards :: rat

text \<open>
  The case \<^verbatim>\<open>'bulk_calculate_rewards'\<close>: \<open>now\<close> is the clock, \<open>rand\<close> the randomness of
  each element's proof nonce. A missing timestamp or rate (\<open>0\<close> stands for any falsy
  value) takes its default; input that is no array (\<open>None\<close>) gives the error object.
\<close>

datatype bulk_output =
    BulkError string
  | BulkResults "bulk_entry list" summary

definition bulk_calculate_rewards ::
  "env \<Rightarrow> (nat \<Rightarrow> byte list) \<Rightarrow> rat \<Rightarrow> stake_data list option \<Rightarrow> rat \<Rightarrow> rat
     \<Rightarrow> js_error + bulk_output" where
  "bulk_calculate_rewards e rand now stakesData currentTimestamp baseAPY =
     (let timestamp = (if currentTimestamp = 0 then now else currentTimestamp);
          apy = (if baseAPY = 0 then 500 else baseAPY)
      in case stakesData of
           None \<Rightarrow> Inr (BulkError ''stakesData must be an array'')
         | Some sds \<Rightarrow>
             (case bulk_map e rand 0 sds timestamp apy of
                Inl err \<Rightarrow> Inl err
              | Inr bulkResults \<Rightarrow>
                  (let successCount = length (filter is_success bulkResults);
                       sumRewards = foldl (\<lambda>sum r. js_add sum (entry_rewards r)) 0
                                      (filter is_success bulkResults)
                   in Inr (BulkResults bulkResults
                        \<lparr>total = length sds, successful = successCount,
                         failed = length sds - successCount,
                         totalRewards = sumRewards\<rparr>))))"

subsection \<open>The confidential-compute client\<close>

text \<open>
  \<^verbatim>\<open>frontend/src/lib/iexec.js\<close>. Every operation wraps its exchange with the remote host
  in \<^verbatim>\<open>try\<close>; the exchange (protect the data, submit the task, fetch and parse the
  result) is an input of the model: \<open>Inr\<close> the parsed result, \<open>Inl\<close> what was thrown
  on the way. \<open>now\<close> is the clock in seconds and \<open>stamp\<close> its rendering in a task id.
\<close>

record iexec_config =
  iappAddress :: string
  forceRealTEE :: bool

record tee_result =
  result_rewards :: int
  result_proofHash :: bytes32
  taskId :: string
  isMock :: bool

definition abi_encode_mock :: "address option \<Rightarrow> int \<Rightarrow> rat \<Rightarrow> js_error + byte list" where
  "abi_encode_mock userAddress r timestamp =
     (case userAddress of
        None \<Rightarrow> Inl InvalidAddress
      | Some a \<Rightarrow>
          if \<not> is_safe_uint (of_int r) then Inl ValueOutOfBounds
          else if \<not> is_safe_uint timestamp then Inl ValueOutOfBounds
          else Inr (be_bytes 32 (unat a) @ be_bytes 32 (nat r) @ be_bytes 32 (nat \<lfloor>timestamp\<rfloor>)))"

definition mockTEEComputation ::
  "env \<Rightarrow> rat \<Rightarrow> string \<Rightarrow> stake_data \<Rightarrow> rat \<Rightarrow> js_error + tee_result" where
  "mockTEEComputation e now stamp stakeData baseAPY =
     (case stakeData of
        Null \<Rightarrow> Inl TypeError
      | StakeData amount stakeTimestamp userAddress \<Rightarrow>
          (let r = rewards_of amount stakeTimestamp now baseAPY in
           case abi_encode_mock userAddress r now of
             Inl err \<Rightarrow> Inl err
           | Inr bytes \<Rightarrow>
               Inr \<lparr>result_rewards = r, result_proofHash = keccak256 e bytes,
                    taskId = ''mock-task-'' @ stamp, isMock = True\<rparr>))"

definition calculateRewardsInTEE ::
  "iexec_config \<Rightarrow> js_error + int \<times> bytes32 \<times> string \<Rightarrow> env \<Rightarrow> rat \<Rightarrow> string
     \<Rightarrow> stake_data \<Rightarrow> rat \<Rightarrow> js_error + tee_result" where
  "calculateRewardsInTEE cfg remote e now stamp stakeData baseAPY =
     (if iappAddress cfg = [] then
        if forceRealTEE cfg then Inl (Error ''TEE computation failed'')
        else mockTEEComputation e now stamp stakeData baseAPY
      else case remote of
        Inr (r, h, tid) \<Rightarrow>
          Inr \<lparr>result_rewards = r, result_proofHash = h, taskId = tid, isMock = False\<rparr>
      | Inl err \<Rightarrow>
          if forceRealTEE cfg then Inl (Error ''TEE computation failed'')
          else mockTEEComputation e now stamp stakeData baseAPY)"

text \<open>\<^verbatim>\<open>verifyCommitmentInTEE\<close> resolves to a boolean and nothing else.\<close>

definition verifyCommitmentInTEE :: "iexec_config \<Rightarrow> js_error + bool \<Rightarrow> bool" where
  "verifyCommitmentInTEE cfg remote =
     (if iappAddress cfg = [] then True
      else case remote of Inr valid \<Rightarrow> valid | Inl err \<Rightarrow> True)"

text \<open>\<^verbatim>\<open>generateAggregateProofInTEE\<close> resolves to the total amount (a decimal string),
  the hash of the commitments and the number of stakes.\<close>

definition generateAggregateProofInTEE ::
  "iexec_config \<Rightarrow> js_error + string \<times> bytes32 \<times> nat \<Rightarrow> string \<times> bytes32 \<times> nat" where
  "generateAggregateProofInTEE cfg remote =
     (if iappAddress cfg = [] then (''0'', 0, 0)
      else case remote of Inr r \<Rightarrow> r | Inl err \<Rightarrow> (''0'', 0, 0))"

section \<open>Properties\<close>

subsection \<open>Bytes\<close>

lemma length_be_bytes [simp]: "length (be_bytes k v) = k"
  by (induction k arbitrary: v) auto

lemma be_bytes_numeral:
  "be_bytes (numeral k) v = be_bytes (pred_numeral k) (v div 256) @ [of_nat (v mod 256)]"
proof -
  have "numeral k = Suc (pred_numeral k)" by (rule numeral_eq_Suc)
  then show ?thesis by (simp only: be_bytes.simps)
qed

lemma foldl_be: "foldl (\<lambda>acc b. acc * 256 + unat b) a bs = a * 256 ^ length bs + be_val bs"
  for bs :: "byte list"
proof (induction bs rule: rev_induct)
  case Nil
  show ?case by (simp add: be_val_def)
next
  case (snoc b bs)
  show ?case
    using snoc by (simp add: be_val_def algebra_simps)
qed

lemma be_val_single [simp]: "be_val [b] = unat b"
  by (simp add: be_val_def)

lemma be_val_Nil [simp]: "be_val [] = 0"
  by (simp add: be_val_def)

lemma be_val_append: "be_val (xs @ ys) = be_val xs * 256 ^ length ys + be_val ys"
proof -
  have "be_val (xs @ ys) = foldl (\<lambda>acc b. acc * 256 + unat b) (be_val xs) ys"
    by (simp add: be_val_def)
  then show ?thesis by (simp only: foldl_be)
qed

lemma be_val_be_bytes: "be_val (be_bytes k v) = v mod 256 ^ k"
proof (induction k arbitrary: v)
  case 0
  show ?case by simp
next
  case (Suc k)
  have "unat (of_nat (v mod 256) :: byte) = v mod 256"
    by (simp add: unat_of_nat)
  then have "be_val (be_bytes (Suc k) v) = (v div 256 mod 256 ^ k) * 256 + v mod 256"
    by (simp add: be_val_append Suc)
  also have "\<dots> = v mod 256 ^ Suc k"
    by (simp add: mod_mult2_eq)
  finally show ?case .
qed

lemma unat_bound32: "unat w < 256 ^ 32" for w :: "256 word"
proof -
  have "unat w < 2 ^ LENGTH(256)" by (rule unsigned_less)
  also have "(2::nat) ^ LENGTH(256) = 256 ^ 32" by simp
  finally show ?thesis .
qed

lemma unat_bound20: "unat w < 256 ^ 20" for w :: "160 word"
proof -
  have "unat w < 2 ^ LENGTH(160)" by (rule unsigned_less)
  also have "(2::nat) ^ LENGTH(160) = 256 ^ 20" by simp
  finally show ?thesis .
qed

lemma be_val_uint256 [simp]: "of_nat (be_val (be_bytes 32 (unat w))) = w" for w :: "256 word"
proof -
  have "unat w mod 256 ^ 32 = unat w" using unat_bound32 by (rule mod_less)
  then have "be_val (be_bytes 32 (unat w)) = unat w" by (simp only: be_val_be_bytes)
  then show ?thesis by simp
qed

lemma be_val_address [simp]: "of_nat (be_val (be_bytes 20 (unat w))) = w" for w :: "160 word"
proof -
  have "unat w mod 256 ^ 20 = unat w" using unat_bound20 by (rule mod_less)
  then have "be_val (be_bytes 20 (unat w)) = unat w" by (simp only: be_val_be_bytes)
  then show ?thesis by simp
qed

lemma be_bytes32_inj: "be_bytes 32 (unat a) = be_bytes 32 (unat b) \<Longrightarrow> a = b"
  for a b :: "256 word"
  by (rule box_equals[OF _ be_val_uint256 be_val_uint256]) (rule arg_cong)

lemma be_bytes20_inj: "be_bytes 20 (unat a) = be_bytes 20 (unat b) \<Longrightarrow> a = b"
  for a b :: "160 word"
  by (rule box_equals[OF _ be_val_address be_val_address]) (rule arg_cong)

text \<open>A signature laid out as \<open>r\<close>, \<open>s\<close>, \<open>v\<close> is read back as such.\<close>

lemma recoverSigner_layout:
  "recoverSigner e h (be_bytes 32 (unat r) @ be_bytes 32 (unat s) @ [v]) =
     Inr (ecrecover e h (if v < 27 then v + 27 else v) r s)"
  by (simp add: recoverSigner_def Let_def nth_append)

subsection \<open>What a successful call has done\<close>

lemma checked_add_InrD: "checked_add a b = Inr c \<Longrightarrow> c = a + b \<and> unat c = unat a + unat b"
  by (auto simp: checked_add_def unat_word_ariths split: if_splits)

lemma checked_sub_InrD: "checked_sub a b = Inr c \<Longrightarrow> c = a - b \<and> unat c = unat a - unat b"
  by (auto simp: checked_sub_def unat_sub word_le_nat_alt split: if_splits)

lemma erc20_transfer_InrD:
  assumes "erc20_transfer from to v t = Inr t'"
  shows "balanceOf t' = ((balanceOf t)(from := balanceOf t from - v))
                          (to := ((balanceOf t)(from := balanceOf t from - v)) to + v)"
    and "totalSupply t' = totalSupply t" and "allowance t' = allowance t"
  using assms by (auto simp: erc20_transfer_def Let_def split: if_splits)

lemma erc20_transferFrom_InrD:
  assumes "erc20_transferFrom spender from to v t = Inr t'"
  shows "balanceOf t' = ((balanceOf t)(from := balanceOf t from - v))
                          (to := ((balanceOf t)(from := balanceOf t from - v)) to + v)"
    and "totalSupply t' = totalSupply t"
  using assms
  by (auto simp: erc20_transferFrom_def Let_def dest: erc20_transfer_InrD split: if_splits)

lemma pls_mint_InrD:
  assumes "pls_mint caller to v p = Inr p'"
  shows "balanceOf (token p') = (balanceOf (token p))(to := balanceOf (token p) to + v)"
    and "totalSupply (token p') = totalSupply (token p) + v"
    and "stakingContract p' = stakingContract p"
    and "allowance (token p') = allowance (token p)"
  using assms
  by (auto simp: pls_mint_def erc20_mint_def checked_add_def split: if_splits sum.splits)

lemma pls_burn_InrD:
  assumes "pls_burn caller from v p = Inr p'"
  shows "balanceOf (token p') = (balanceOf (token p))(from := balanceOf (token p) from - v)"
    and "totalSupply (token p') = totalSupply (token p) - v"
    and "stakingContract p' = stakingContract p"
    and "allowance (token p') = allowance (token p)"
  using assms
  by (auto simp: pls_burn_def erc20_burn_def split: if_splits sum.splits)

lemma stake_InrD:
  assumes "stake e sender amount salt w = Inr (c, w1)"
  shows "amount \<noteq> 0" and "c = commitment_of e sender amount salt"
    and "\<not> stakeCommitments w c"
    and "\<exists>asset newTotal pls.
           erc20_transferFrom (self e) sender (self e) amount (stakingAsset w) = Inr asset
         \<and> checked_add (totalStaked w) amount = Inr newTotal
         \<and> pls_mint (self e) sender amount (plsToken w) = Inr pls
         \<and> w1 = w\<lparr>stakingAsset := asset,
                   stakeCommitments := (stakeCommitments w)(c := True),
                   userCommitments := (userCommitments w)
                     (sender := userCommitments w sender @ [c]),
                   totalStaked := newTotal,
                   plsToken := pls\<rparr>"
  using assms
  by (auto simp: stake_def Let_def split: if_splits sum.splits)

lemma unstake_InrD:
  assumes "unstake e sender amount salt w = Inr w1"
  shows "stakeCommitments w (commitment_of e sender amount salt)"
    and "\<exists>asset newTotal pls.
           pls_burn (self e) sender amount (plsToken w) = Inr pls
         \<and> checked_sub (totalStaked w) amount = Inr newTotal
         \<and> erc20_transfer (self e) sender amount (stakingAsset w) = Inr asset
         \<and> w1 = w\<lparr>stakeCommitments :=
                     (stakeCommitments w)(commitment_of e sender amount salt := False),
                   userCommitments := (userCommitments w)
                     (sender := removeCommitment (userCommitments w sender)
                                  (commitment_of e sender amount salt)),
                   plsToken := pls,
                   totalStaked := newTotal,
                   stakingAsset := asset\<rparr>"
  using assms
  by (auto simp: unstake_def Let_def split: if_splits sum.splits)

lemma claimRewards_InrD:
  assumes "claimRewards e sender amount p sg w = Inr w1"
  shows "\<not> claimedRewards w p"
    and "recoverSigner e (ethSignedHash e (messageHash e sender amount p (nonces w sender))) sg
           = Inr (teeOracle w)"
    and "\<exists>n pls. checked_add (nonces w sender) 1 = Inr n
           \<and> pls_mint (self e) sender amount (plsToken w) = Inr pls
           \<and> w1 = w\<lparr>claimedRewards := (claimedRewards w)(p := True),
                     nonces := (nonces w)(sender := n),
                     plsToken := pls\<rparr>"
  using assms
  by (auto simp: claimRewards_def split: if_splits sum.splits)

lemma claimRewards_claimed:
  "claimedRewards w p \<Longrightarrow> claimRewards e sender amount p sg w = Inl AlreadyClaimed"
  by (simp add: claimRewards_def)

lemma stake_frame:
  assumes "stake e sender amount salt w = Inr (c, w1)"
  shows "claimedRewards w1 = claimedRewards w" "nonces w1 = nonces w"
    "teeOracle w1 = teeOracle w" "owner w1 = owner w"
  using assms by (auto simp: stake_def Let_def split: if_splits sum.splits)

lemma unstake_frame:
  assumes "unstake e sender amount salt w = Inr w1"
  shows "claimedRewards w1 = claimedRewards w" "nonces w1 = nonces w"
    "teeOracle w1 = teeOracle w" "owner w1 = owner w"
  using assms by (auto simp: unstake_def Let_def split: if_splits sum.splits)

lemma setTEEOracle_frame:
  assumes "setTEEOracle sender oracle w = Inr w1"
  shows "claimedRewards w1 = claimedRewards w" "nonces w1 = nonces w"
    "stakeCommitments w1 = stakeCommitments w" "userCommitments w1 = userCommitments w"
    "totalStaked w1 = totalStaked w"
  using assms by (auto simp: setTEEOracle_def split: if_splits)

lemma call_Stake_InrD:
  "call e (Stake u a s) w = Inr w1 \<Longrightarrow> \<exists>c. stake e u a s w = Inr (c, w1)"
  by (cases "stake e u a s w") auto

lemma call_claimed_mono:
  assumes "call e t w = Inr w1" and "claimedRewards w p"
  shows "claimedRewards w1 p"
proof (cases t)
  case (Stake u a s)
  with assms(1) obtain c where "stake e u a s w = Inr (c, w1)"
    using call_Stake_InrD[of e u a s w w1] by auto
  with assms(2) show ?thesis by (simp add: stake_frame)
next
  case (Unstake u a s)
  with assms show ?thesis by (simp add: unstake_frame)
next
  case (ClaimRewards u a q sg)
  with assms have "claimRewards e u a q sg w = Inr w1" by simp
  from claimRewards_InrD(3)[OF this] assms(2) show ?thesis by auto
next
  case (SetTEEOracle u orc)
  with assms show ?thesis by (simp add: setTEEOracle_frame)
qed

lemma exec_claimed_mono: "claimedRewards w p \<Longrightarrow> claimedRewards (exec e t w) p"
  by (auto simp: exec_def dest: call_claimed_mono split: sum.splits)

lemma run_claimed_mono: "claimedRewards w p \<Longrightarrow> claimedRewards (run e txs w) p"
  by (induction txs arbitrary: w) (auto intro: exec_claimed_mono)

subsection \<open>The concrete deployment, evaluated\<close>

lemmas demo_eval = be_bytes_numeral encodePacked_def demo_env_def
  messageHash_def ethSignedHash_def commitment_of_def eth_prefix_def

lemma demo_self: "self demo_env = 9"
  by (simp add: demo_env_def)

lemma demo_commitment: "commitment_of demo_env 3 100 5 = 108"
  by (simp add: demo_eval)

lemma demo_stake: "stake demo_env 3 100 5 demo_world = Inr (108, demo_staked)"
  by (simp add: stake_def demo_commitment demo_self demo_world_def demo_staked_def deployed_def
      demo_asset_def demo_pls_def erc20_transferFrom_def erc20_transfer_def checked_add_def
      pls_mint_def erc20_mint_def Let_def fun_eq_iff)

lemma demo_unstake: "\<exists>w2. unstake demo_env 3 100 5 demo_staked = Inr w2"
  by (simp add: unstake_def demo_commitment demo_self demo_world_def demo_staked_def
      deployed_def erc20_transfer_def checked_sub_def pls_burn_def erc20_burn_def Let_def)

lemma demo_digest0: "ethSignedHash demo_env (messageHash demo_env 3 20 11 0) = 2529"
  by (simp add: demo_eval)

lemma demo_digest1: "ethSignedHash demo_env (messageHash demo_env 3 20 11 1) = 2530"
  by (simp add: demo_eval)

lemma demo_recover:
  "recoverSigner demo_env h (demo_signature n) =
     Inr (if ethSignedHash demo_env (messageHash demo_env 3 20 11 n) = h then 7 else 0)"
  unfolding demo_signature_def recoverSigner_layout
  by (simp add: ecrecover_def demo_env_def)

lemma demo_message0: "messageHash demo_env 3 20 11 0 = 384"
  by (simp add: demo_eval)

lemma demo_message1: "messageHash demo_env 3 20 11 1 = 385"
  by (simp add: demo_eval)

lemma demo_claim: "\<exists>w1. claimRewards demo_env 3 20 11 (demo_signature 0) demo_world = Inr w1"
  by (simp add: claimRewards_def demo_recover demo_world_def deployed_def demo_pls_def demo_self
      checked_add_def pls_mint_def erc20_mint_def)

subsection \<open>Rounding to binary64\<close>

lemma round_half_even_error: "\<bar>of_int (round_half_even y) - y\<bar> \<le> 1 / 2"
proof -
  have "of_int \<lfloor>y\<rfloor> \<le> y" "y < of_int \<lfloor>y\<rfloor> + 1" by linarith+
  then show ?thesis
    by (auto simp: round_half_even_def Let_def abs_le_iff)
qed

lemma round_half_even_of_int [simp]: "round_half_even (of_int n) = n"
  by (simp add: round_half_even_def)

lemma round_half_even_nonpos: "y \<le> 0 \<Longrightarrow> round_half_even y \<le> 0"
proof -
  assume y: "y \<le> 0"
  have f: "of_int \<lfloor>y\<rfloor> \<le> y" by linarith
  with y have f0: "\<lfloor>y\<rfloor> \<le> 0" by linarith
  show ?thesis
  proof (cases "\<lfloor>y\<rfloor> = 0")
    case True
    with y f have "y = 0" by simp
    then show ?thesis by (simp add: round_half_even_def)
  next
    case False
    with f0 have "\<lfloor>y\<rfloor> + 1 \<le> 0" by linarith
    with f0 show ?thesis by (auto simp: round_half_even_def Let_def)
  qed
qed

lemma round_half_even_nonneg: "0 \<le> y \<Longrightarrow> 0 \<le> round_half_even y"
proof -
  assume "0 \<le> y"
  then have "0 \<le> \<lfloor>y\<rfloor>" by simp
  then show ?thesis by (auto simp: round_half_even_def Let_def)
qed

lemma powi_nat: "0 \<le> k \<Longrightarrow> (2::rat) powi k = 2 ^ nat k"
  by (simp add: power_int_def)

lemma expo_bounds:
  assumes "x \<noteq> 0"
  shows "2 powi expo x \<le> \<bar>x\<bar>" and "\<bar>x\<bar> < 2 powi (expo x + 1)"
proof -
  have "2 powi expo x \<le> \<bar>x\<bar> \<and> \<bar>x\<bar> < 2 powi (expo x + 1)"
  proof (cases "1 \<le> \<bar>x\<bar>")
    case True
    define n where "n = \<lfloor>\<bar>x\<bar>\<rfloor>"
    from True have n1: "1 \<le> n" by (simp add: n_def le_floor_iff)
    have nx: "of_int n \<le> \<bar>x\<bar>" "\<bar>x\<bar> < of_int n + 1" unfolding n_def by linarith+
    from n1 have b1: "1 \<le> bitlen n" by (simp add: bitlen_alt_def)
    from bitlen_bounds[of n] n1
    have lo: "2 ^ nat (bitlen n - 1) \<le> n" and hi: "n < 2 ^ nat (bitlen n)" by auto
    have e: "expo x = bitlen n - 1" using True by (simp add: expo_def n_def)
    have "(2::rat) powi (bitlen n - 1) = of_int (2 ^ nat (bitlen n - 1))"
      using b1 by (simp add: powi_nat)
    also have "\<dots> \<le> of_int n" using lo by (simp only: of_int_le_iff)
    finally have 1: "2 powi expo x \<le> \<bar>x\<bar>" using nx(1) e by simp
    from hi have "n + 1 \<le> 2 ^ nat (bitlen n)" by simp
    then have "(of_int (n + 1) :: rat) \<le> of_int (2 ^ nat (bitlen n))"
      by (simp only: of_int_le_iff)
    also have "(of_int (2 ^ nat (bitlen n)) :: rat) = 2 powi bitlen n"
      using b1 by (simp add: powi_nat)
    finally have 2: "\<bar>x\<bar> < 2 powi (expo x + 1)" using nx(2) e by simp
    from 1 2 show ?thesis ..
  next
    case False
    with assms have x: "0 < \<bar>x\<bar>" "\<bar>x\<bar> < 1" by auto
    define y where "y = 1 / \<bar>x\<bar>"
    from x have y1: "1 < y" by (simp add: y_def)
    define m where "m = \<lceil>y\<rceil> - 1"
    have my: "of_int m < y" "y \<le> of_int m + 1" unfolding m_def by linarith+
    from y1 my(2) have m1: "1 \<le> m" by linarith
    then have b1: "1 \<le> bitlen m" by (simp add: bitlen_alt_def)
    from bitlen_bounds[of m] m1
    have lo: "2 ^ nat (bitlen m - 1) \<le> m" and hi: "m < 2 ^ nat (bitlen m)" by auto
    have e: "expo x = - bitlen m" using False by (simp add: expo_def m_def y_def)
    from hi have "m + 1 \<le> 2 ^ nat (bitlen m)" by simp
    then have "(of_int (m + 1) :: rat) \<le> of_int (2 ^ nat (bitlen m))"
      by (simp only: of_int_le_iff)
    with my(2) have yhi: "y \<le> 2 ^ nat (bitlen m)" by simp
    have "(of_int (2 ^ nat (bitlen m - 1)) :: rat) \<le> of_int m"
      using lo by (simp only: of_int_le_iff)
    then have "(2::rat) ^ nat (bitlen m - 1) \<le> of_int m" by simp
    with my(1) have ylo: "2 ^ nat (bitlen m - 1) < y" by linarith
    have xi: "\<bar>x\<bar> = 1 / y" using x by (simp add: y_def)
    have y0: "0 < y" using y1 by simp
    have "(2::rat) powi (- bitlen m) = 1 / 2 ^ nat (bitlen m)"
      using b1 by (simp add: power_int_def field_simps)
    also have "\<dots> \<le> 1 / y" using yhi y0 by (simp add: frac_le)
    finally have 1: "2 powi expo x \<le> \<bar>x\<bar>" by (simp add: e xi)
    have "(2::rat) powi (- bitlen m + 1) = 1 / 2 ^ nat (bitlen m - 1)"
    proof (cases "bitlen m = 1")
      case True
      then show ?thesis by simp
    next
      case False
      with b1 have "- bitlen m + 1 < 0" by simp
      then have "(2::rat) powi (- bitlen m + 1) = inverse 2 ^ nat (bitlen m - 1)"
        by (simp add: power_int_def)
      then show ?thesis by (simp add: field_simps)
    qed
    moreover have "1 / y < 1 / 2 ^ nat (bitlen m - 1)"
      using ylo by (simp add: frac_less2)
    ultimately have 2: "\<bar>x\<bar> < 2 powi (expo x + 1)" by (simp add: e xi)
    from 1 2 show ?thesis ..
  qed
  then show "2 powi expo x \<le> \<bar>x\<bar>" and "\<bar>x\<bar> < 2 powi (expo x + 1)" by auto
qed

lemma ulp_pos: "0 < (2::rat) powi k"
  by simp

lemma round64_error:
  assumes "x \<noteq> 0"
  shows "\<bar>round64 x - x\<bar> \<le> \<bar>x\<bar> / 2 ^ 53"
proof -
  define u :: rat where "u = 2 powi (expo x - 52)"
  have u0: "0 < u" by (simp add: u_def)
  have r: "round64 x = u * of_int (round_half_even (x / u))"
    using assms by (simp add: round64_def u_def Let_def)
  have "round64 x - x = u * (of_int (round_half_even (x / u)) - x / u)"
    using u0 by (simp add: r algebra_simps)
  then have "\<bar>round64 x - x\<bar> = u * \<bar>of_int (round_half_even (x / u)) - x / u\<bar>"
    using u0 by (simp add: abs_mult)
  also have "\<dots> \<le> u * (1 / 2)"
    using round_half_even_error[of "x / u"] u0 by (intro mult_left_mono) auto
  also have "u * (1 / 2) = 2 powi expo x / 2 ^ 53"
    by (simp add: u_def power_int_diff)
  also have "\<dots> \<le> \<bar>x\<bar> / 2 ^ 53"
    using expo_bounds(1)[OF assms] by (simp add: divide_right_mono)
  finally show ?thesis .
qed

lemma round64_representable:
  assumes "x / 2 powi (expo x - 52) = of_int k"
  shows "round64 x = x"
proof (cases "x = 0")
  case True
  then show ?thesis by (simp add: round64_def)
next
  case False
  define u :: rat where "u = 2 powi (expo x - 52)"
  have u0: "u \<noteq> 0" by (simp add: u_def)
  from assms have k: "x / u = of_int k" by (simp add: u_def)
  have "round64 x = u * of_int (round_half_even (x / u))"
    using False by (simp add: round64_def u_def Let_def)
  also have "\<dots> = u * (x / u)" by (simp add: k)
  also have "\<dots> = x" using u0 by simp
  finally show ?thesis .
qed

lemma powi_less_D: "(2::rat) powi a < 2 powi b \<Longrightarrow> a < b"
  using power_int_increasing[of b a "2::rat"] by (cases "a < b") auto

lemma powi_le_D: "(2::rat) powi a \<le> 2 powi b \<Longrightarrow> a \<le> b"
  using power_int_strict_increasing[of b a "2::rat"] by (cases "a \<le> b") auto

lemma expo_int_range:
  assumes "n \<noteq> 0" and "\<bar>of_int n :: rat\<bar> \<le> 2 ^ 53"
  shows "0 \<le> expo (of_int n)" and "expo (of_int n) \<le> 53"
proof -
  let ?x = "of_int n :: rat"
  from assms(1) have x0: "?x \<noteq> 0" by simp
  from assms(1) have "1 \<le> \<bar>n\<bar>" by simp
  then have "(1::rat) \<le> \<bar>?x\<bar>" by (metis of_int_1 of_int_abs of_int_le_iff)
  with expo_bounds(2)[OF x0] have "(2::rat) powi 0 < 2 powi (expo ?x + 1)" by simp
  then have "0 < expo ?x + 1" by (rule powi_less_D)
  then show "0 \<le> expo ?x" by simp
  from expo_bounds(1)[OF x0] assms(2) have "(2::rat) powi expo ?x \<le> 2 powi 53" by simp
  then show "expo ?x \<le> 53" by (rule powi_le_D)
qed

text \<open>An integer of magnitude up to \<open>2 ^ 53\<close> is a binary64 value.\<close>

lemma round64_int:
  assumes "\<bar>n\<bar> \<le> 2 ^ 53"
  shows "round64 (of_int n) = of_int n"
proof (cases "n = 0")
  case True
  then show ?thesis by (simp add: round64_def)
next
  case False
  let ?x = "of_int n :: rat"
  from assms have ax: "\<bar>?x\<bar> \<le> 2 ^ 53"
    by (metis of_int_abs of_int_le_iff of_int_numeral of_int_power)
  from expo_int_range[OF False ax] have e: "0 \<le> expo ?x" "expo ?x \<le> 53" .
  show ?thesis
  proof (cases "expo ?x \<le> 52")
    case True
    then have "(2::rat) powi (expo ?x - 52) = 1 / 2 ^ nat (52 - expo ?x)"
      by (cases "expo ?x = 52") (simp_all add: power_int_def field_simps)
    then have "?x / 2 powi (expo ?x - 52) = of_int (n * 2 ^ nat (52 - expo ?x))"
      by simp
    then show ?thesis by (rule round64_representable)
  next
    case False
    with e have e53: "expo ?x = 53" by simp
    from expo_bounds(1)[of ?x] \<open>n \<noteq> 0\<close> e53 have "(2::rat) ^ 53 \<le> \<bar>?x\<bar>" by simp
    with ax have "\<bar>?x\<bar> = 2 ^ 53" by simp
    then have "\<bar>n\<bar> = 2 ^ 53"
      by (metis of_int_abs of_int_eq_iff of_int_numeral of_int_power)
    moreover have "(2::int) dvd 2 ^ 53" by simp
    ultimately have "2 dvd \<bar>n\<bar>" by simp
    then have "2 dvd n" by (simp only: dvd_abs_iff)
    then have "n = 2 * (n div 2)" by simp
    then have h: "?x = 2 * of_int (n div 2)" by (metis of_int_mult of_int_numeral)
    have u: "(2::rat) powi (expo ?x - 52) = 2" by (simp add: e53)
    have "?x / 2 powi (expo ?x - 52) = of_int (n div 2)"
      unfolding u using h by simp
    then show ?thesis by (rule round64_representable)
  qed
qed

lemma round64_numeral [simp]: "\<bar>numeral k :: int\<bar> \<le> 2 ^ 53 \<Longrightarrow> round64 (numeral k) = numeral k"
  using round64_int[of "numeral k"] by simp

text \<open>
  Dividing an integer below \<open>2 ^ 53\<close> in magnitude by a positive integer, rounding and
  taking the floor gives integer division: the rounding error stays below the distance
  \<open>1 / b\<close> between a non-integral quotient and the next integer.
\<close>

lemma floor_round64_div:
  assumes b: "0 < b" and a: "\<bar>a\<bar> < 2 ^ 53"
  shows "\<lfloor>round64 (of_int a / of_int b)\<rfloor> = a div b"
proof -
  let ?q = "of_int a / of_int b :: rat"
  have fl: "\<lfloor>?q\<rfloor> = a div b" by (rule floor_divide_of_int_eq)
  show ?thesis
  proof (cases "b dvd a")
    case True
    then obtain k where k: "a = b * k" ..
    with b have dk: "a div b = k" by simp
    have q: "?q = of_int (a div b)" using b by (simp add: k)
    have "1 * \<bar>k\<bar> \<le> \<bar>b\<bar> * \<bar>k\<bar>" using b by (intro mult_right_mono) auto
    then have "\<bar>a div b\<bar> \<le> \<bar>a\<bar>" by (simp add: dk k abs_mult)
    with a have "\<bar>a div b\<bar> \<le> 2 ^ 53" by simp
    from round64_int[OF this] show ?thesis by (simp add: q)
  next
    case False
    then have a0: "a \<noteq> 0" by auto
    with b have q0: "?q \<noteq> 0" by simp
    define r where "r = a mod b"
    have "0 \<le> a mod b" and "a mod b < b" using b by simp_all
    moreover from False have "a mod b \<noteq> 0" by (simp add: dvd_eq_mod_eq_0)
    ultimately have r: "1 \<le> r" "r \<le> b - 1" unfolding r_def by linarith+
    have bq: "0 < (of_int b :: rat)" using b by simp
    have "a = b * (a div b) + r" by (simp add: r_def)
    then have "(of_int a :: rat) = of_int b * of_int (a div b) + of_int r"
      by (metis of_int_add of_int_mult)
    then have qr: "?q = of_int (a div b) + of_int r / of_int b"
      using bq by (simp add: field_simps)
    have lo: "of_int (a div b) + 1 / of_int b \<le> ?q"
      using r(1) bq by (simp add: qr divide_right_mono)
    have "(of_int r :: rat) \<le> of_int b - 1" using r(2) by (metis of_int_1 of_int_diff of_int_le_iff)
    then have "of_int r / (of_int b :: rat) \<le> (of_int b - 1) / of_int b"
      using bq by (simp add: divide_right_mono)
    also have "\<dots> = 1 - 1 / of_int b" using bq by (simp add: field_simps)
    finally have hi: "?q \<le> of_int (a div b) + 1 - 1 / of_int b" by (simp add: qr)
    have "(of_int \<bar>a\<bar> :: rat) < 2 ^ 53" using a
      by (metis of_int_less_iff of_int_numeral of_int_power)
    then have "\<bar>?q\<bar> / 2 ^ 53 < 1 / of_int b"
      using bq by (simp add: field_simps abs_mult)
    with round64_error[OF q0] have err: "\<bar>round64 ?q - ?q\<bar> < 1 / of_int b" by simp
    from err lo have 1: "of_int (a div b) \<le> round64 ?q" by linarith
    from err hi have 2: "round64 ?q < of_int (a div b) + 1" by linarith
    from 1 2 show ?thesis by (simp add: floor_unique)
  qed
qed

lemma round64_nonpos: "x \<le> 0 \<Longrightarrow> round64 x \<le> 0"
proof -
  assume x: "x \<le> 0"
  have "x / 2 powi (expo x - 52) \<le> 0" using x by (simp add: divide_nonpos_pos)
  then have "round_half_even (x / 2 powi (expo x - 52)) \<le> 0" by (rule round_half_even_nonpos)
  then have "(of_int (round_half_even (x / 2 powi (expo x - 52))) :: rat) \<le> 0" by simp
  then show ?thesis
    by (simp add: round64_def Let_def mult_nonneg_nonpos)
qed

lemma round64_nonneg: "0 \<le> x \<Longrightarrow> 0 \<le> round64 x"
proof -
  assume x: "0 \<le> x"
  have "0 \<le> x / 2 powi (expo x - 52)" using x by simp
  then have "0 \<le> round_half_even (x / 2 powi (expo x - 52))" by (rule round_half_even_nonneg)
  then show ?thesis by (simp add: round64_def Let_def)
qed

text \<open>Reading a number: integers of magnitude up to \<open>2 ^ 53\<close> are read as they are.\<close>

lemma num_int: "\<bar>n\<bar> \<le> 2 ^ 53 \<Longrightarrow> num (of_int n) = of_int n"
  by (simp add: num_def round64_int)

lemma num_0 [simp]: "num 0 = 0"
  by (simp add: num_def round64_def)

lemma num_numeral [simp]: "\<bar>numeral k :: int\<bar> \<le> 2 ^ 53 \<Longrightarrow> num (numeral k) = numeral k"
  by (simp add: num_def)

lemma num_neg_numeral [simp]:
  "\<bar>numeral k :: int\<bar> \<le> 2 ^ 53 \<Longrightarrow> num (- numeral k) = - numeral k"
  using num_int[of "- numeral k"] by simp

lemma num_nonneg: "0 \<le> x \<Longrightarrow> 0 \<le> num x"
  by (simp add: num_def round64_nonneg)

lemma SECONDS_PER_YEAR_eq: "SECONDS_PER_YEAR = 31536000"
  by (simp add: SECONDS_PER_YEAR_def js_mul_def)

lemma divisor_eq: "js_mul 10000 SECONDS_PER_YEAR = 315360000000"
  by (simp add: SECONDS_PER_YEAR_eq js_mul_def)

lemma timeStaked_of_int:
  assumes "\<bar>st\<bar> \<le> 2 ^ 53" and "\<bar>cur\<bar> \<le> 2 ^ 53" and "\<bar>cur - st\<bar> \<le> 2 ^ 53"
  shows "timeStaked_of (of_int cur) (of_int st) = of_int (cur - st)"
  using round64_int[OF assms(3)]
  by (simp add: timeStaked_of_def js_sub_def num_int[OF assms(1)] num_int[OF assms(2)])

text \<open>
  When the product of two integers is of magnitude up to \<open>2 ^ 53\<close>, so is each factor,
  unless the other is zero; either way the product is computed exactly.
\<close>

lemma js_mul_num_int:
  assumes ab: "\<bar>a * b\<bar> \<le> 2 ^ 53"
  shows "js_mul (num (of_int a)) (num (of_int b)) = of_int (a * b)"
proof (cases "a = 0 \<or> b = 0")
  case True
  then show ?thesis by (auto simp: js_mul_def round64_def)
next
  case False
  then have a1: "1 \<le> \<bar>a\<bar>" and b1: "1 \<le> \<bar>b\<bar>" by auto
  have "\<bar>a\<bar> * 1 \<le> \<bar>a\<bar> * \<bar>b\<bar>" using b1 by (intro mult_left_mono) auto
  with ab have a: "\<bar>a\<bar> \<le> 2 ^ 53" by (simp add: abs_mult)
  have "1 * \<bar>b\<bar> \<le> \<bar>a\<bar> * \<bar>b\<bar>" using a1 by (intro mult_right_mono) auto
  with ab have b: "\<bar>b\<bar> \<le> 2 ^ 53" by (simp add: abs_mult)
  from round64_int[OF ab] show ?thesis
    by (simp add: js_mul_def num_int[OF a] num_int[OF b])
qed

lemma rewards_of_exact:
  assumes st: "\<bar>st\<bar> \<le> 2 ^ 53" and cur: "\<bar>cur\<bar> \<le> 2 ^ 53"
    and t: "\<bar>cur - st\<bar> \<le> 2 ^ 53" and ab: "\<bar>a * apy\<bar> \<le> 2 ^ 53"
    and abt: "\<bar>a * apy * (cur - st)\<bar> < 2 ^ 53"
  shows "rewards_of (of_int a) (of_int st) (of_int cur) (of_int apy)
       = a * apy * (cur - st) div 315360000000"
proof -
  have 1: "timeStaked_of (of_int cur) (of_int st) = of_int (cur - st)"
    using st cur t by (rule timeStaked_of_int)
  have 2: "js_mul (num (of_int a)) (num (of_int apy)) = of_int (a * apy)"
    using ab by (rule js_mul_num_int)
  from abt have "\<bar>a * apy * (cur - st)\<bar> \<le> 2 ^ 53" by simp
  from round64_int[OF this]
  have 3: "js_mul (of_int (a * apy)) (of_int (cur - st)) = of_int (a * apy * (cur - st))"
    by (simp add: js_mul_def)
  have 4: "\<lfloor>js_div (of_int (a * apy * (cur - st))) 315360000000\<rfloor>
      = a * apy * (cur - st) div 315360000000"
    using floor_round64_div[OF _ abt, of 315360000000] by (simp add: js_div_def)
  have "rewards_of (of_int a) (of_int st) (of_int cur) (of_int apy)
      = \<lfloor>js_div (js_mul (js_mul (num (of_int a)) (num (of_int apy)))
                        (timeStaked_of (of_int cur) (of_int st)))
                (js_mul 10000 SECONDS_PER_YEAR)\<rfloor>"
    by (simp only: rewards_of_def Let_def)
  also have "\<dots> = \<lfloor>js_div (of_int (a * apy * (cur - st))) 315360000000\<rfloor>"
    by (simp only: 1 2 3 divisor_eq)
  finally show ?thesis by (simp only: 4)
qed

lemma spec_reward_int:
  "spec_reward (of_int a) (of_int apy) (of_int t) = a * apy * t div 315360000000"
proof -
  have "spec_reward (of_int a) (of_int apy) (of_int t)
      = \<lfloor>(of_int (a * apy * t) :: rat) / of_int 315360000000\<rfloor>"
    by (simp add: spec_reward_def)
  also have "\<dots> = a * apy * t div 315360000000" by (rule floor_divide_of_int_eq)
  finally show ?thesis .
qed

lemma rewards_of_nonpos:
  assumes "0 \<le> amount" and "0 \<le> baseAPY"
    and "timeStaked_of currentTimestamp stakeTimestamp < 0"
  shows "rewards_of amount stakeTimestamp currentTimestamp baseAPY \<le> 0"
proof -
  let ?t = "timeStaked_of currentTimestamp stakeTimestamp"
  let ?p = "js_mul (num amount) (num baseAPY)"
  have p: "0 \<le> ?p"
    using assms(1,2) by (simp add: js_mul_def round64_nonneg num_nonneg)
  from p assms(3) have "?p * ?t \<le> 0"
    by (intro mult_nonneg_nonpos) simp_all
  then have "js_mul ?p ?t \<le> 0"
    by (simp add: js_mul_def[of ?p] round64_nonpos)
  then have "js_mul ?p ?t / 315360000000 \<le> 0"
    by (simp add: divide_nonpos_pos)
  then have "js_div (js_mul ?p ?t) 315360000000 \<le> 0"
    unfolding js_div_def by (rule round64_nonpos)
  then show ?thesis
    by (simp add: rewards_of_def Let_def divisor_eq floor_le_iff)
qed

text \<open>
  What \<^verbatim>\<open>calculateRewards\<close> returns of the reward: the encoder takes it when it is an
  integer from 0 to \<open>2 ^ 53 - 1\<close>, and the timestamp likewise.
\<close>

lemma is_safe_uint_of_int: "is_safe_uint (of_int n) \<longleftrightarrow> 0 \<le> n \<and> n < 2 ^ 53"
proof -
  have "(of_int n :: rat) \<le> 2 ^ 53 - 1 \<longleftrightarrow> (of_int n :: rat) \<le> of_int (2 ^ 53 - 1)" by simp
  also have "\<dots> \<longleftrightarrow> n \<le> 2 ^ 53 - 1" by (simp only: of_int_le_iff)
  finally show ?thesis by (auto simp: is_safe_uint_def)
qed

lemma calculateRewards_rewards:
  "map_sum id rewards
     (calculateRewards e nonce (StakeData amount stakeTimestamp (Some u)) currentTimestamp baseAPY)
   = (if is_safe_uint (of_int (rewards_of amount stakeTimestamp currentTimestamp baseAPY))
         \<and> is_safe_uint (num currentTimestamp)
      then Inr (rewards_of amount stakeTimestamp currentTimestamp baseAPY)
      else Inl ValueOutOfBounds)"
  by (simp add: calculateRewards_def abi_encode_proof_def Let_def)

lemma calculateRewards_exact:
  assumes st: "\<bar>st\<bar> \<le> 2 ^ 53" and cur: "\<bar>cur\<bar> \<le> 2 ^ 53"
    and t: "\<bar>cur - st\<bar> \<le> 2 ^ 53" and ab: "\<bar>a * apy\<bar> \<le> 2 ^ 53"
    and abt: "\<bar>a * apy * (cur - st)\<bar> < 2 ^ 53"
  shows "map_sum id rewards
           (calculateRewards e nonce (StakeData (of_int a) (of_int st) (Some u))
              (of_int cur) (of_int apy))
       = (if 0 \<le> a * apy * (cur - st) div 315360000000 \<and> 0 \<le> cur \<and> cur < 2 ^ 53
          then Inr (a * apy * (cur - st) div 315360000000)
          else Inl ValueOutOfBounds)"
proof -
  let ?x = "a * apy * (cur - st)"
  let ?r = "?x div 315360000000"
  have r: "rewards_of (of_int a) (of_int st) (of_int cur) (of_int apy) = ?r"
    using assms by (rule rewards_of_exact)
  have lt: "?r < 2 ^ 53" if "0 \<le> ?r"
  proof -
    from that have "0 \<le> ?x" by (simp add: pos_imp_zdiv_nonneg_iff)
    then have "?r \<le> ?x div 1" by (intro zdiv_mono2) simp_all
    with abt show ?thesis by simp
  qed
  show ?thesis
    unfolding calculateRewards_rewards r num_int[OF cur] is_safe_uint_of_int
    using lt by auto
qed

lemma calculateRewards_InrD:
  assumes "calculateRewards e nonce (StakeData amount stakeTimestamp userAddress)
             currentTimestamp baseAPY = Inr r"
  shows "rewards r = rewards_of amount stakeTimestamp currentTimestamp baseAPY"
    and "0 \<le> rewards r"
  using assms
  by (auto simp: calculateRewards_def abi_encode_proof_def Let_def is_safe_uint_def
      split: option.splits if_splits)

lemma calculateRewards_negative:
  assumes "rewards_of amount stakeTimestamp currentTimestamp baseAPY < 0"
  shows "isl (calculateRewards e nonce (StakeData amount stakeTimestamp userAddress)
                currentTimestamp baseAPY)"
  using assms
  by (auto simp: calculateRewards_def abi_encode_proof_def Let_def is_safe_uint_def
      split: option.splits)

text \<open>Concrete roundings, evaluated.\<close>

lemma floor_numeral_div: "\<lfloor>numeral a / numeral b :: rat\<rfloor> = numeral a div numeral b"
  using floor_divide_of_int_eq[of "numeral a" "numeral b", where ?'a = rat] by simp

lemmas float_eval = js_sub_def js_mul_def js_div_def
  round64_def expo_def bitlen_def compute_floorlog round_half_even_def power_int_def Let_def
  floor_numeral_div

lemma num_token: "num 1000000000000000000 = 1000000000000000000"
  by (simp add: num_def float_eval)

lemma inexact_mul1: "js_mul 1000000000000000000 520 = 520000000000000000000"
  by (simp add: float_eval)

lemma inexact_mul2: "js_mul 520000000000000000000 2592000 = 1347839999999999894236430336"
  by (simp add: float_eval)

lemma inexact_div: "js_div 1347839999999999894236430336 315360000000 = 8547945205479451 / 2"
  by (simp add: float_eval)

lemma inexact_reward: "rewards_of 1000000000000000000 0 2592000 520 = 4273972602739725"
proof -
  have "timeStaked_of 2592000 0 = 2592000" by (simp add: timeStaked_of_def js_sub_def)
  then show ?thesis
    by (simp add: rewards_of_def Let_def divisor_eq num_token inexact_mul1 inexact_mul2
        inexact_div floor_numeral_div)
qed

lemma exact_reward: "spec_reward 1000000000000000000 520 2592000 = 4273972602739726"
  using spec_reward_int[of 1000000000000000000 520 2592000] by simp

lemma year_mul: "js_mul 520000000 31536000 = 16398720000000000"
  by (simp add: float_eval)

lemma year_div: "js_div 16398720000000000 315360000000 = 52000"
  by (simp add: js_div_def)

text \<open>
  A year staked, for timestamps that are binary64 integers. The product is beyond
  \<open>2 ^ 53\<close> and is a binary64 value all the same.
\<close>

lemma year_reward:
  assumes "\<bar>st\<bar> \<le> 2 ^ 53" and "\<bar>st + 31536000\<bar> \<le> 2 ^ 53"
  shows "rewards_of 1000000 (of_int st) (of_int (st + 31536000)) 520 = 52000"
proof -
  have "timeStaked_of (of_int (st + 31536000)) (of_int st) = of_int (st + 31536000 - st)"
    using assms by (intro timeStaked_of_int) simp_all
  then have "timeStaked_of (of_int (st + 31536000)) (of_int st) = 31536000" by simp
  moreover have "js_mul 1000000 520 = 520000000" by (simp add: js_mul_def)
  ultimately show ?thesis
    by (simp add: rewards_of_def Let_def divisor_eq year_mul year_div)
qed

lemma year_reward0: "rewards_of 1000000 0 31536000 520 = 52000"
  using year_reward[of 0] by simp

lemma calculateRewards_year:
  assumes "0 \<le> cur" and "cur < 2 ^ 53"
  shows "map_sum id rewards
           (calculateRewards e nonce (StakeData 1000000 (of_int (cur - 31536000)) (Some u))
              (of_int cur) 520)
       = Inr 52000"
proof -
  from assms have b: "\<bar>cur - 31536000\<bar> \<le> 2 ^ 53" "\<bar>cur - 31536000 + 31536000\<bar> \<le> 2 ^ 53"
    by simp_all
  from year_reward[OF b]
  have r: "rewards_of 1000000 (of_int (cur - 31536000)) (of_int cur) 520 = 52000" by simp
  from assms have "\<bar>cur\<bar> \<le> 2 ^ 53" by simp
  from num_int[OF this] assms have t: "is_safe_uint (num (of_int cur))"
    by (simp add: is_safe_uint_of_int)
  have s: "is_safe_uint (of_int 52000)" by (simp add: is_safe_uint_def)
  show ?thesis
    unfolding calculateRewards_rewards r using s t by simp
qed
subsection \<open>Hashes as text\<close>

lemma hex_value_hex_digit: "n < 16 \<Longrightarrow> hex_value (hex_digit n) = Some n"
proof -
  assume n: "n < 16"
  have "list_all (\<lambda>k. hex_value (hex_digit k) = Some k) [0..<16]"
    by (simp add: hex_value_def hex_digit_def upt_conv_Cons)
  then have "\<forall>k \<in> set [0..<16]. hex_value (hex_digit k) = Some k"
    by (simp only: list_all_iff)
  with n show ?thesis by simp
qed

lemma byte_of_nibbles: "of_nat (16 * (unat b div 16) + unat b mod 16) = b" for b :: byte
  by simp

lemma unhex_digits:
  "unhex (concat (map (\<lambda>b. [hex_digit (unat b div 16), hex_digit (unat b mod 16)]) bs)) = Some bs"
proof (induction bs)
  case Nil
  show ?case by simp
next
  case (Cons b bs)
  have "unat b < 256" using unsigned_less[of b] by simp
  then have h: "unat b div 16 < 16" by simp
  have l: "unat b mod 16 < 16" by simp
  show ?case
    by (simp add: Cons.IH hex_value_hex_digit[OF h] hex_value_hex_digit[OF l] byte_of_nibbles
        del: of_nat_add of_nat_mult)
qed

lemma length_hexlify: "length (hexlify bs) = 2 + 2 * length bs"
  by (induction bs) (simp_all add: hexlify_def)

lemma bytes_of_hex_hexlify: "length bs = n \<Longrightarrow> bytes_of_hex n (hexlify bs) = Some bs"
  unfolding bytes_of_hex_def length_hexlify
  by (simp add: hexlify_def unhex_digits)

text \<open>The text of a hash names that hash and no other.\<close>

lemma bytes32_of_hex_text: "bytes32_of_hex (hex_of_bytes32 h) = Some h"
  by (simp add: bytes32_of_hex_def hex_of_bytes32_def bytes_of_hex_hexlify)

lemma hex_of_bytes32_inj: "hex_of_bytes32 h = hex_of_bytes32 h' \<Longrightarrow> h = h'"
proof -
  assume "hex_of_bytes32 h = hex_of_bytes32 h'"
  then have "bytes32_of_hex (hex_of_bytes32 h) = bytes32_of_hex (hex_of_bytes32 h')" by simp
  then show "h = h'" by (simp only: bytes32_of_hex_text option.inject)
qed

lemma solidityPacked_commitment_read:
  assumes "read_uint256 lib amount = Inr a" and "read_bytes32 lib salt = Inr s"
    and "read_address lib userAddress = Inr u"
  shows "solidityPacked_commitment lib amount salt userAddress
       = Inr (be_bytes 32 (unat a) @ be_bytes 32 (unat s) @ be_bytes 20 (unat u))"
  using assms by (simp add: solidityPacked_commitment_def encodePacked_def)

lemma solidityPacked_commitment_throws:
  assumes "isl (read_uint256 lib amount) \<or> isl (read_bytes32 lib salt)
         \<or> isl (read_address lib userAddress)"
  shows "isl (solidityPacked_commitment lib amount salt userAddress)"
  using assms by (auto simp: solidityPacked_commitment_def split: sum.splits)

text \<open>The example texts, read.\<close>

lemma demo_texts:
  "bytes32_of_hex demo_salt_text = Some 5"
  "bytes_of_hex 20 demo_owner_text = Some (be_bytes 20 3)"
  "bytes32_of_hex demo_commitment_text = Some 108"
  "bytes32_of_hex demo_commitment_capital = Some 108"
  by (simp_all add: bytes32_of_hex_def bytes_of_hex_def hex_value_def be_val_def
      demo_salt_text_def demo_owner_text_def demo_commitment_text_def
      demo_commitment_capital_def be_bytes_numeral)

lemma demo_commitment_hex: "hex_of_bytes32 108 = demo_commitment_text"
  by (simp add: hex_of_bytes32_def hexlify_def hex_digit_def be_bytes_numeral
      demo_commitment_text_def)

lemma demo_owner_hex: "hexlify (be_bytes 20 3) = demo_owner_text"
  by (simp add: hexlify_def hex_digit_def be_bytes_numeral demo_owner_text_def)

lemma demo_reads:
  "read_uint256 demo_ethers (JNumber 100) = Inr 100"
  "read_bytes32 demo_ethers (JString demo_salt_text) = Inr 5"
  "read_address demo_ethers (JString demo_owner_text) = Inr 3"
  by (simp_all add: demo_ethers_def is_safe_uint_def demo_texts demo_owner_hex be_val_be_bytes)

lemma demo_verify:
  "verifyCommitment demo_ethers demo_env commitment demo_reveal
     = Inr (commitment = JString demo_commitment_text)"
proof -
  have "keccak256 demo_env (be_bytes 32 (unat (100 :: uint256)) @ be_bytes 32 (unat (5 :: bytes32))
          @ be_bytes 20 (unat (3 :: address))) = 108"
    using demo_commitment by (simp add: commitment_of_def encodePacked_def)
  then show ?thesis
    by (simp add: verifyCommitment_def demo_reveal_def
        solidityPacked_commitment_read[OF demo_reads] demo_commitment_hex)
qed

lemma demo_large_commitment: "commitment_of demo_env 3 9007199254740992 5 = 40"
  by (simp add: demo_eval)

lemma demo_large_hex: "hex_of_bytes32 40 = demo_large_text"
  by (simp add: hex_of_bytes32_def hexlify_def hex_digit_def be_bytes_numeral
      demo_large_text_def)

lemma demo_large_throws:
  "verifyCommitment demo_ethers demo_env commitment demo_large_reveal = Inl ValueOutOfBounds"
proof -
  have "\<not> is_safe_uint 9007199254740992" by (simp add: is_safe_uint_def)
  then show ?thesis
    by (simp add: verifyCommitment_def demo_large_reveal_def solidityPacked_commitment_def
        demo_ethers_def)
qed
subsection \<open>Claims on the ledger\<close>

text \<open>
  Claim C1 says that while the oracle address is unset (zero), every \<^verbatim>\<open>claimRewards\<close>
  fails, whatever the signature. The code checks only that the recovered signer equals
  \<^verbatim>\<open>teeOracle\<close>, and \<^verbatim>\<open>ecrecover\<close> answers an unusable signature with the zero
  address. The theorem evaluates the call in the freshly deployed ledger (oracle unset,
  receipt token wired to the ledger) with a 65-byte signature whose recovery id is 29:
  it succeeds, whatever the curve, and mints 1000000 receipt tokens to the caller.
\<close>

theorem claimRewards_accepted_while_oracle_unset:
  "claimRewards e 3 1000000 5 (be_bytes 32 (unat (0 :: bytes32)) @ be_bytes 32 (unat (0 :: bytes32)) @ [29])
     (deployed 1 \<lparr>token = \<lparr>balanceOf = (\<lambda>a. 0), allowance = (\<lambda>a b. 0), totalSupply = 0\<rparr>,
                  stakingContract = self e\<rparr> asset)
   = Inr ((deployed 1 \<lparr>token = \<lparr>balanceOf = (\<lambda>a. 0), allowance = (\<lambda>a b. 0),
                                 totalSupply = 0\<rparr>,
                       stakingContract = self e\<rparr> asset)
          \<lparr>claimedRewards := (\<lambda>p. p = 5),
            nonces := (\<lambda>a. if a = 3 then 1 else 0),
            plsToken := \<lparr>token = \<lparr>balanceOf = (\<lambda>a. if a = 3 then 1000000 else 0),
                                  allowance = (\<lambda>a b. 0), totalSupply = 1000000\<rparr>,
                         stakingContract = self e\<rparr>\<rparr>)"
proof -
  have "recoverSigner e h (be_bytes 32 (unat (0 :: bytes32)) @ be_bytes 32 (unat (0 :: bytes32)) @ [29])
          = Inr 0" for h
    unfolding recoverSigner_layout by (simp add: ecrecover_def)
  then show ?thesis
    by (simp add: claimRewards_def deployed_def checked_add_def pls_mint_def erc20_mint_def
        fun_eq_iff)
qed

text \<open>
  Claim C2: a proof hash is honoured at most once. Once \<^verbatim>\<open>claimRewards\<close> has succeeded
  with proof hash \<open>p\<close>, then after any further transactions every call with \<open>p\<close>, by
  anyone, for any amount and with any signature, fails with \<^verbatim>\<open>AlreadyClaimed\<close> and
  leaves the state as it is. And a call whose proof hash is fresh and whose signature
  recovers to the oracle over the claimant's current nonce succeeds, marks the proof hash
  and mints the amount, in a ledger whose receipt token is wired to it and has room for
  the amount, for a claimant other than the zero address whose nonce can still be
  incremented; so it succeeds exactly once.
\<close>

theorem proofHash_honoured_once:
  "(claimRewards e sender amount p sg w = Inr w1 \<longrightarrow>
      (\<forall>txs sender' amount' sg'.
         claimRewards e sender' amount' p sg' (run e txs w1) = Inl AlreadyClaimed
       \<and> exec e (ClaimRewards sender' amount' p sg') (run e txs w1) = run e txs w1))
 \<and> (\<not> claimedRewards w p
      \<and> recoverSigner e (ethSignedHash e (messageHash e sender amount p (nonces w sender))) sg
            = Inr (teeOracle w)
      \<and> unat (nonces w sender) + 1 < 2 ^ 256
      \<and> stakingContract (plsToken w) = self e \<and> sender \<noteq> 0
      \<and> unat (totalSupply (token (plsToken w))) + unat amount < 2 ^ 256
    \<longrightarrow> (\<exists>w2. claimRewards e sender amount p sg w = Inr w2 \<and> claimedRewards w2 p
            \<and> balanceOf (token (plsToken w2)) sender
                = balanceOf (token (plsToken w)) sender + amount
            \<and> claimRewards e sender amount p sg w2 = Inl AlreadyClaimed))"
proof (intro conjI impI allI)
  fix txs sender' amount' sg'
  assume ok: "claimRewards e sender amount p sg w = Inr w1"
  from claimRewards_InrD(3)[OF ok] have "claimedRewards w1 p" by auto
  then have "claimedRewards (run e txs w1) p" by (rule run_claimed_mono)
  then show "claimRewards e sender' amount' p sg' (run e txs w1) = Inl AlreadyClaimed"
    by (rule claimRewards_claimed)
  then show "exec e (ClaimRewards sender' amount' p sg') (run e txs w1) = run e txs w1"
    by (simp add: exec_def)
next
  assume h: "\<not> claimedRewards w p
      \<and> recoverSigner e (ethSignedHash e (messageHash e sender amount p (nonces w sender))) sg
            = Inr (teeOracle w)
      \<and> unat (nonces w sender) + 1 < 2 ^ 256
      \<and> stakingContract (plsToken w) = self e \<and> sender \<noteq> 0
      \<and> unat (totalSupply (token (plsToken w))) + unat amount < 2 ^ 256"
  define pls where "pls = (plsToken w)\<lparr>token := (token (plsToken w))
      \<lparr>totalSupply := totalSupply (token (plsToken w)) + amount,
       balanceOf := (balanceOf (token (plsToken w)))
         (sender := balanceOf (token (plsToken w)) sender + amount)\<rparr>\<rparr>"
  define w2 where "w2 = w\<lparr>claimedRewards := (claimedRewards w)(p := True),
      nonces := (nonces w)(sender := nonces w sender + 1), plsToken := pls\<rparr>"
  from h have mint: "pls_mint (self e) sender amount (plsToken w) = Inr pls"
    by (simp add: pls_mint_def erc20_mint_def checked_add_def pls_def)
  from h have inc: "checked_add (nonces w sender) 1 = Inr (nonces w sender + 1)"
    by (simp add: checked_add_def)
  from h mint inc have ok: "claimRewards e sender amount p sg w = Inr w2"
    by (simp add: claimRewards_def w2_def)
  moreover have c: "claimedRewards w2 p" by (simp add: w2_def)
  moreover have "balanceOf (token (plsToken w2)) sender
                = balanceOf (token (plsToken w)) sender + amount"
    by (simp add: w2_def pls_def)
  moreover from c have "claimRewards e sender amount p sg w2 = Inl AlreadyClaimed"
    by (rule claimRewards_claimed)
  ultimately show "\<exists>w2. claimRewards e sender amount p sg w = Inr w2 \<and> claimedRewards w2 p
            \<and> balanceOf (token (plsToken w2)) sender
                = balanceOf (token (plsToken w)) sender + amount
            \<and> claimRewards e sender amount p sg w2 = Inl AlreadyClaimed"
    by blast
qed

theorem proofHash_honoured_once_witness:
  "\<exists>w1. claimRewards demo_env 3 20 11 (demo_signature 0) demo_world = Inr w1
      \<and> balanceOf (token (plsToken w1)) 3 = 20
      \<and> claimRewards demo_env 3 20 11 (demo_signature 0) (run demo_env [Stake 3 100 5] w1)
          = Inl AlreadyClaimed
      \<and> claimRewards demo_env 4 1 11 [] w1 = Inl AlreadyClaimed
      \<and> exec demo_env (ClaimRewards 4 1 11 []) w1 = w1"
proof -
  have hyps: "\<not> claimedRewards demo_world 11
      \<and> recoverSigner demo_env
           (ethSignedHash demo_env (messageHash demo_env 3 20 11 (nonces demo_world 3)))
           (demo_signature 0) = Inr (teeOracle demo_world)
      \<and> unat (nonces demo_world 3) + 1 < 2 ^ 256
      \<and> stakingContract (plsToken demo_world) = self demo_env \<and> (3 :: address) \<noteq> 0
      \<and> unat (totalSupply (token (plsToken demo_world))) + unat (20 :: uint256) < 2 ^ 256"
    by (simp add: demo_recover demo_world_def deployed_def demo_pls_def demo_self)
  from proofHash_honoured_once[THEN conjunct2, rule_format, OF hyps]
  obtain w1 where ok: "claimRewards demo_env 3 20 11 (demo_signature 0) demo_world = Inr w1"
    and bal: "balanceOf (token (plsToken w1)) 3 = balanceOf (token (plsToken demo_world)) 3 + 20"
    by blast
  from bal have b: "balanceOf (token (plsToken w1)) 3 = 20"
    by (simp add: demo_world_def deployed_def demo_pls_def)
  from proofHash_honoured_once[THEN conjunct1, rule_format, OF ok,
      where txs = "[Stake 3 100 5]" and sender' = 3 and amount' = 20 and sg' = "demo_signature 0"]
    proofHash_honoured_once[THEN conjunct1, rule_format, OF ok,
      where txs = "[]" and sender' = 4 and amount' = 1 and sg' = "[]"] ok b
  show ?thesis by simp
qed

text \<open>
  Claim C4, the round trip: when \<^verbatim>\<open>stake(amount, salt)\<close> succeeds and the same caller's
  \<^verbatim>\<open>unstake(amount, salt)\<close> then succeeds, the amount was positive, the caller's
  balance of the staking asset is what it was before the stake, the commitment computed
  from (amount, salt, caller) is no longer present, the caller's receipt tokens and their
  total supply are what they were (what was minted has been burned), and
  \<^verbatim>\<open>totalStaked\<close> is what it was.
\<close>

theorem stake_unstake_roundtrip:
  assumes st: "stake e sender amount salt w = Inr (c, w1)"
    and un: "unstake e sender amount salt w1 = Inr w2"
  shows "amount \<noteq> 0 \<and> c = commitment_of e sender amount salt
       \<and> balanceOf (stakingAsset w2) sender = balanceOf (stakingAsset w) sender
       \<and> \<not> stakeCommitments w2 c
       \<and> balanceOf (token (plsToken w2)) sender = balanceOf (token (plsToken w)) sender
       \<and> totalSupply (token (plsToken w2)) = totalSupply (token (plsToken w))
       \<and> totalStaked w2 = totalStaked w"
proof -
  from stake_InrD[OF st] obtain asset newTotal pls where
    nz: "amount \<noteq> 0" and c: "c = commitment_of e sender amount salt"
    and tf: "erc20_transferFrom (self e) sender (self e) amount (stakingAsset w) = Inr asset"
    and ca: "checked_add (totalStaked w) amount = Inr newTotal"
    and pm: "pls_mint (self e) sender amount (plsToken w) = Inr pls"
    and w1: "stakingAsset w1 = asset" "totalStaked w1 = newTotal" "plsToken w1 = pls"
    by auto
  from unstake_InrD[OF un] obtain asset' newTotal' pls' where
    pb: "pls_burn (self e) sender amount (plsToken w1) = Inr pls'"
    and cs: "checked_sub (totalStaked w1) amount = Inr newTotal'"
    and tr: "erc20_transfer (self e) sender amount (stakingAsset w1) = Inr asset'"
    and w2: "stakingAsset w2 = asset'" "totalStaked w2 = newTotal'" "plsToken w2 = pls'"
      "\<not> stakeCommitments w2 (commitment_of e sender amount salt)"
    by auto
  have "balanceOf (stakingAsset w2) sender = balanceOf (stakingAsset w) sender"
    using erc20_transferFrom_InrD(1)[OF tf] erc20_transfer_InrD(1)[OF tr[unfolded w1]] w2(1)
    by simp
  moreover have "balanceOf (token (plsToken w2)) sender = balanceOf (token (plsToken w)) sender"
    using pls_mint_InrD(1)[OF pm] pls_burn_InrD(1)[OF pb[unfolded w1]] w2(3) by simp
  moreover have "totalSupply (token (plsToken w2)) = totalSupply (token (plsToken w))"
    using pls_mint_InrD(2)[OF pm] pls_burn_InrD(2)[OF pb[unfolded w1]] w2(3) by simp
  moreover have "totalStaked w2 = totalStaked w"
    using checked_add_InrD[OF ca] checked_sub_InrD[OF cs[unfolded w1]] w2(2) by simp
  ultimately show ?thesis using nz c w2(4) by simp
qed

theorem stake_unstake_roundtrip_witness:
  "\<exists>w2. stake demo_env 3 100 5 demo_world = Inr (108, demo_staked)
      \<and> unstake demo_env 3 100 5 demo_staked = Inr w2
      \<and> balanceOf (stakingAsset demo_staked) 3 = 900
      \<and> balanceOf (stakingAsset w2) 3 = 1000
      \<and> \<not> stakeCommitments w2 108
      \<and> balanceOf (token (plsToken w2)) 3 = 0
      \<and> totalSupply (token (plsToken w2)) = 0
      \<and> totalStaked w2 = 0"
proof -
  from demo_unstake obtain w2 where un: "unstake demo_env 3 100 5 demo_staked = Inr w2" ..
  from stake_unstake_roundtrip[OF demo_stake un] demo_stake un
  show ?thesis
    by (auto simp: demo_world_def demo_staked_def deployed_def demo_asset_def demo_pls_def)
qed

text \<open>
  Claim C5: after \<^verbatim>\<open>stake(amount, salt)\<close> has succeeded for an owner, and for as long
  as the commitment stays present (whatever transactions come in between), the same
  owner's \<^verbatim>\<open>stake(amount, salt)\<close> fails with \<^verbatim>\<open>CommitmentAlreadyExists\<close> and the state
  is left as it is.
\<close>

theorem stake_twice_duplicate:
  assumes "stake e sender amount salt w = Inr (c, w1)"
    and "w2 = run e txs w1"
    and "stakeCommitments w2 c"
  shows "stake e sender amount salt w2 = Inl CommitmentAlreadyExists
       \<and> exec e (Stake sender amount salt) w2 = w2"
proof -
  from assms(1) have "amount \<noteq> 0" and "c = commitment_of e sender amount salt"
    by (auto dest: stake_InrD)
  with assms(3) have "stake e sender amount salt w2 = Inl CommitmentAlreadyExists"
    by (simp add: stake_def)
  then show ?thesis by (simp add: exec_def)
qed

theorem stake_twice_duplicate_witness:
  "stake demo_env 3 100 5 demo_world = Inr (108, demo_staked)
   \<and> stakeCommitments (run demo_env [] demo_staked) 108
   \<and> stake demo_env 3 100 5 (run demo_env [] demo_staked) = Inl CommitmentAlreadyExists
   \<and> exec demo_env (Stake 3 100 5) (run demo_env [] demo_staked) = run demo_env [] demo_staked"
proof -
  have p: "stakeCommitments (run demo_env [] demo_staked) 108"
    by (simp add: demo_staked_def)
  from stake_twice_duplicate[OF demo_stake refl p] demo_stake p show ?thesis by simp
qed

subsection \<open>The claimant's nonce\<close>

lemma claim_message_inj:
  "claim_message e sender amount p n = claim_message e sender amount p n' \<Longrightarrow> n = n'"
  by (simp add: claim_message_def encodePacked_def be_bytes32_inj)

lemma signed_message_inj: "signed_message h = signed_message h' \<Longrightarrow> h = h'"
  by (simp add: signed_message_def encodePacked_def be_bytes32_inj)

lemma messageHash_claim_message:
  "messageHash e sender amount p n = keccak256 e (claim_message e sender amount p n)"
  by (simp add: messageHash_def claim_message_def)

lemma ethSignedHash_signed_message: "ethSignedHash e h = keccak256 e (signed_message h)"
  by (simp add: ethSignedHash_def signed_message_def)

text \<open>Without a collision, claim messages for different nonces have different digests.\<close>

lemma digest_distinct:
  assumes "n \<noteq> n'"
    and "\<not> collide e (claim_message e sender amount p n) (claim_message e sender amount p n')"
    and "\<not> collide e (signed_message (messageHash e sender amount p n))
                      (signed_message (messageHash e sender amount p n'))"
  shows "ethSignedHash e (messageHash e sender amount p n)
       \<noteq> ethSignedHash e (messageHash e sender amount p n')"
proof
  assume eq: "ethSignedHash e (messageHash e sender amount p n)
            = ethSignedHash e (messageHash e sender amount p n')"
  with assms(3) have "signed_message (messageHash e sender amount p n)
                    = signed_message (messageHash e sender amount p n')"
    by (auto simp: collide_def ethSignedHash_signed_message)
  then have "messageHash e sender amount p n = messageHash e sender amount p n'"
    by (rule signed_message_inj)
  with assms(2) have "claim_message e sender amount p n = claim_message e sender amount p n'"
    by (auto simp: collide_def messageHash_claim_message)
  then have "n = n'" by (rule claim_message_inj)
  with assms(1) show False by simp
qed

lemma call_nonces_mono:
  assumes "call e t w = Inr w1"
  shows "unat (nonces w u) \<le> unat (nonces w1 u)"
proof (cases t)
  case (Stake u' a s)
  with assms obtain c where "stake e u' a s w = Inr (c, w1)"
    using call_Stake_InrD[of e u' a s w w1] by auto
  then show ?thesis by (simp add: stake_frame)
next
  case (Unstake u' a s)
  with assms show ?thesis by (simp add: unstake_frame)
next
  case (ClaimRewards u' a q sg)
  with assms have "claimRewards e u' a q sg w = Inr w1" by simp
  from claimRewards_InrD(3)[OF this] show ?thesis
    by (auto dest: checked_add_InrD)
next
  case (SetTEEOracle u' orc)
  with assms show ?thesis by (simp add: setTEEOracle_frame)
qed

lemma exec_nonces_mono: "unat (nonces w u) \<le> unat (nonces (exec e t w) u)"
  by (auto simp: exec_def dest: call_nonces_mono split: sum.splits)

lemma run_nonces_mono: "unat (nonces w u) \<le> unat (nonces (run e txs w) u)"
proof (induction txs arbitrary: w)
  case Nil
  show ?case by simp
next
  case (Cons t txs)
  have "unat (nonces w u) \<le> unat (nonces (exec e t w) u)" by (rule exec_nonces_mono)
  also have "\<dots> \<le> unat (nonces (run e txs (exec e t w)) u)" by (rule Cons.IH)
  finally show ?case by simp
qed

text \<open>
  Claim C3, as the code has it. (1) A successful \<^verbatim>\<open>claimRewards\<close> raises the claimant's
  nonce by exactly 1 and touches no other nonce. (2) No transaction lowers any nonce.
  (3) The claimant's nonce is the sole per-claimant state of the protocol: two states
  that agree on it, on the oracle, on the claimed flag of the proof hash and on the
  receipt token give the same outcome. (4) A claim whose signature the oracle made over
  a nonce other than the current one is rejected: with \<^verbatim>\<open>AlreadyClaimed\<close> when its
  proof hash is in the claimed set, since that check comes first, and with
  \<^verbatim>\<open>InvalidSignature\<close> otherwise. What (4) takes from the cryptography is stated for
  the two claim messages at hand, the one that was signed and the current one: the hash
  does not collide on them, and the signature is not the oracle's over both digests.
\<close>

theorem nonce_strictly_sequential:
  "(claimRewards e sender amount p sg w = Inr w1 \<longrightarrow>
      unat (nonces w1 sender) = unat (nonces w sender) + 1
    \<and> (\<forall>u. u \<noteq> sender \<longrightarrow> nonces w1 u = nonces w u))
 \<and> (\<forall>u txs. unat (nonces w u) \<le> unat (nonces (run e txs w) u))
 \<and> (nonces w' sender = nonces w sender \<and> teeOracle w' = teeOracle w
      \<and> claimedRewards w' p = claimedRewards w p \<and> plsToken w' = plsToken w \<longrightarrow>
      map_sum id (\<lambda>_. ()) (claimRewards e sender amount p sg w')
        = map_sum id (\<lambda>_. ()) (claimRewards e sender amount p sg w))
 \<and> (n' \<noteq> nonces w sender
      \<and> recoverSigner e (ethSignedHash e (messageHash e sender amount p n')) sg
            = Inr (teeOracle w)
      \<and> speaks_for_one e (teeOracle w) sg
            (ethSignedHash e (messageHash e sender amount p n'))
            (ethSignedHash e (messageHash e sender amount p (nonces w sender)))
      \<and> \<not> collide e (claim_message e sender amount p n')
                       (claim_message e sender amount p (nonces w sender))
      \<and> \<not> collide e (signed_message (messageHash e sender amount p n'))
                       (signed_message (messageHash e sender amount p (nonces w sender)))
    \<longrightarrow> claimRewards e sender amount p sg w
          = Inl (if claimedRewards w p then AlreadyClaimed else InvalidSignature))"
proof (intro conjI impI allI)
  assume ok: "claimRewards e sender amount p sg w = Inr w1"
  from claimRewards_InrD(3)[OF ok] obtain n pls where
    n: "checked_add (nonces w sender) 1 = Inr n"
    and w1: "w1 = w\<lparr>claimedRewards := (claimedRewards w)(p := True),
                     nonces := (nonces w)(sender := n), plsToken := pls\<rparr>"
    by auto
  have "unat n = unat (nonces w sender) + 1"
    using checked_add_InrD[OF n, THEN conjunct2] by simp
  moreover have "nonces w1 sender = n" using w1 by simp
  ultimately show "unat (nonces w1 sender) = unat (nonces w sender) + 1" by simp
  fix u
  assume "u \<noteq> sender"
  with w1 show "nonces w1 u = nonces w u" by simp
next
  fix u txs
  show "unat (nonces w u) \<le> unat (nonces (run e txs w) u)" by (rule run_nonces_mono)
next
  assume "nonces w' sender = nonces w sender \<and> teeOracle w' = teeOracle w
      \<and> claimedRewards w' p = claimedRewards w p \<and> plsToken w' = plsToken w"
  then show "map_sum id (\<lambda>_. ()) (claimRewards e sender amount p sg w')
        = map_sum id (\<lambda>_. ()) (claimRewards e sender amount p sg w)"
    by (simp add: claimRewards_def split: sum.splits)
next
  let ?d' = "ethSignedHash e (messageHash e sender amount p n')"
  let ?d = "ethSignedHash e (messageHash e sender amount p (nonces w sender))"
  assume h: "n' \<noteq> nonces w sender
      \<and> recoverSigner e ?d' sg = Inr (teeOracle w)
      \<and> speaks_for_one e (teeOracle w) sg ?d' ?d
      \<and> \<not> collide e (claim_message e sender amount p n')
                       (claim_message e sender amount p (nonces w sender))
      \<and> \<not> collide e (signed_message (messageHash e sender amount p n'))
                       (signed_message (messageHash e sender amount p (nonces w sender)))"
  then have d: "?d' \<noteq> ?d"
    by (intro digest_distinct) simp_all
  have "recoverSigner e ?d sg \<noteq> Inr (teeOracle w)"
  proof
    assume "recoverSigner e ?d sg = Inr (teeOracle w)"
    with h have "?d' = ?d" unfolding speaks_for_one_def by blast
    with d show False by simp
  qed
  moreover from h have "length sg = 65"
    by (auto simp: recoverSigner_def split: if_splits)
  ultimately show "claimRewards e sender amount p sg w
          = Inl (if claimedRewards w p then AlreadyClaimed else InvalidSignature)"
    by (auto simp: claimRewards_def recoverSigner_def Let_def split: sum.splits)
qed

theorem nonce_strictly_sequential_witness:
  "\<exists>w1. claimRewards demo_env 3 20 11 (demo_signature 0) demo_world = Inr w1
      \<and> unat (nonces demo_world 3) = 0 \<and> unat (nonces w1 3) = 1 \<and> nonces w1 4 = nonces demo_world 4
      \<and> unat (nonces w1 3) \<le> unat (nonces (run demo_env [Stake 3 100 5] w1) 3)
      \<and> map_sum id (\<lambda>_. ()) (claimRewards demo_env 3 20 11 (demo_signature 1)
                                (demo_world\<lparr>totalStaked := 5\<rparr>))
          = map_sum id (\<lambda>_. ()) (claimRewards demo_env 3 20 11 (demo_signature 1) demo_world)
      \<and> recoverSigner demo_env (ethSignedHash demo_env (messageHash demo_env 3 20 11 1))
           (demo_signature 1) = Inr (teeOracle demo_world)
      \<and> speaks_for_one demo_env (teeOracle demo_world) (demo_signature 1)
           (ethSignedHash demo_env (messageHash demo_env 3 20 11 1))
           (ethSignedHash demo_env (messageHash demo_env 3 20 11 (nonces demo_world 3)))
      \<and> \<not> collide demo_env (claim_message demo_env 3 20 11 1)
                              (claim_message demo_env 3 20 11 (nonces demo_world 3))
      \<and> \<not> collide demo_env (signed_message (messageHash demo_env 3 20 11 1))
            (signed_message (messageHash demo_env 3 20 11 (nonces demo_world 3)))
      \<and> claimRewards demo_env 3 20 11 (demo_signature 1) demo_world = Inl InvalidSignature"
proof -
  from demo_claim obtain w1 where
    ok: "claimRewards demo_env 3 20 11 (demo_signature 0) demo_world = Inr w1" ..
  have n0: "nonces demo_world 3 = 0" and orc: "teeOracle demo_world = 7"
    and fresh: "\<not> claimedRewards demo_world 11"
    by (simp_all add: demo_world_def deployed_def)
  have rec: "recoverSigner demo_env (ethSignedHash demo_env (messageHash demo_env 3 20 11 1))
           (demo_signature 1) = Inr (teeOracle demo_world)"
    by (simp add: demo_recover orc)
  have once: "speaks_for_one demo_env (teeOracle demo_world) (demo_signature 1)
           (ethSignedHash demo_env (messageHash demo_env 3 20 11 1))
           (ethSignedHash demo_env (messageHash demo_env 3 20 11 (nonces demo_world 3)))"
    by (simp add: speaks_for_one_def demo_recover orc n0 demo_digest0 demo_digest1)
  have c1: "\<not> collide demo_env (claim_message demo_env 3 20 11 1)
                              (claim_message demo_env 3 20 11 (nonces demo_world 3))"
    using demo_message0 demo_message1
    by (simp add: collide_def n0 messageHash_claim_message[symmetric])
  have c2: "\<not> collide demo_env (signed_message (messageHash demo_env 3 20 11 1))
            (signed_message (messageHash demo_env 3 20 11 (nonces demo_world 3)))"
    using demo_digest0 demo_digest1
    by (simp add: collide_def n0 ethSignedHash_signed_message[symmetric])
  have stale: "(1 :: uint256) \<noteq> nonces demo_world 3" by (simp add: n0)
  note T = nonce_strictly_sequential[of demo_env 3 20 11 "demo_signature 0" demo_world w1]
  note U = nonce_strictly_sequential[of demo_env 3 20 11 "demo_signature 1" demo_world _
      "demo_world\<lparr>totalStaked := 5\<rparr>" 1]
  have a: "unat (nonces w1 3) = unat (nonces demo_world 3) + 1 \<and> nonces w1 4 = nonces demo_world 4"
    using T[THEN conjunct1, rule_format, OF ok] by simp
  have b: "unat (nonces w1 3) \<le> unat (nonces (run demo_env [Stake 3 100 5] w1) 3)"
    using nonce_strictly_sequential[of demo_env 3 20 11 "demo_signature 0" w1,
        THEN conjunct2, THEN conjunct1, rule_format] .
  have c: "map_sum id (\<lambda>_. ()) (claimRewards demo_env 3 20 11 (demo_signature 1)
                                (demo_world\<lparr>totalStaked := 5\<rparr>))
          = map_sum id (\<lambda>_. ()) (claimRewards demo_env 3 20 11 (demo_signature 1) demo_world)"
    using U[THEN conjunct2, THEN conjunct2, THEN conjunct1] by simp
  have d: "claimRewards demo_env 3 20 11 (demo_signature 1) demo_world = Inl InvalidSignature"
    using U[THEN conjunct2, THEN conjunct2, THEN conjunct2] stale rec once c1 c2 fresh
    by simp
  from ok a b c d rec once c1 c2 show ?thesis by (auto simp: n0)
qed

text \<open>
  As claim C3 is worded, every claim signed over another nonce is rejected with the
  invalid-signature error. Account 3's claim at nonce 0 has gone through and the nonce
  is 1. A claim the oracle signed ahead of its turn, over nonce 2, for the same proof
  hash is answered \<^verbatim>\<open>AlreadyClaimed\<close>, and so is the first claim sent again, whose
  signature is over nonce 0.
\<close>

theorem stale_nonce_replay_counterexample:
  "\<exists>w1. claimRewards demo_env 3 20 11 (demo_signature 0) demo_world = Inr w1
      \<and> nonces w1 3 = 1
      \<and> recoverSigner demo_env (ethSignedHash demo_env (messageHash demo_env 3 20 11 2))
           (demo_signature 2) = Inr (teeOracle w1)
      \<and> claimRewards demo_env 3 20 11 (demo_signature 2) w1 = Inl AlreadyClaimed
      \<and> claimRewards demo_env 3 20 11 (demo_signature 2) w1 \<noteq> Inl InvalidSignature
      \<and> recoverSigner demo_env (ethSignedHash demo_env (messageHash demo_env 3 20 11 0))
           (demo_signature 0) = Inr (teeOracle w1)
      \<and> claimRewards demo_env 3 20 11 (demo_signature 0) w1 = Inl AlreadyClaimed
      \<and> claimRewards demo_env 3 20 11 (demo_signature 0) w1 \<noteq> Inl InvalidSignature"
proof -
  from demo_claim obtain w1 where
    ok: "claimRewards demo_env 3 20 11 (demo_signature 0) demo_world = Inr w1" ..
  from claimRewards_InrD(3)[OF ok] obtain n pls where
    n: "checked_add (nonces demo_world 3) 1 = Inr n"
    and w1: "w1 = demo_world\<lparr>claimedRewards := (claimedRewards demo_world)(11 := True),
                     nonces := (nonces demo_world)(3 := n), plsToken := pls\<rparr>"
    by auto
  have n0: "nonces demo_world 3 = 0" and orc: "teeOracle demo_world = 7"
    by (simp_all add: demo_world_def deployed_def)
  from n have "n = 1" by (simp add: n0 checked_add_def)
  with w1 have "nonces w1 3 = 1" and "teeOracle w1 = 7" and "claimedRewards w1 11"
    by (simp_all add: orc)
  moreover from this(3)
  have "claimRewards demo_env 3 20 11 sg w1 = Inl AlreadyClaimed" for sg
    by (rule claimRewards_claimed)
  ultimately show ?thesis using ok by (auto simp: demo_recover)
qed
subsection \<open>The bookkeeping invariant\<close>

lemma swap_pop:
  assumes "i < length cs" and "distinct cs"
  shows "set (butlast (cs[i := cs ! (length cs - 1)])) = set cs - {cs ! i}"
    and "distinct (butlast (cs[i := cs ! (length cs - 1)]))"
proof -
  from assms(1) have "cs \<noteq> []" by auto
  then obtain xs l where cs: "cs = xs @ [l]" by (cases cs rule: rev_cases) auto
  have l: "cs ! (length cs - 1) = l" by (simp add: cs)
  from assms(2) cs have dx: "distinct xs" and lx: "l \<notin> set xs" by auto
  show "set (butlast (cs[i := cs ! (length cs - 1)])) = set cs - {cs ! i}"
  proof (cases "i < length xs")
    case True
    then have "butlast (cs[i := l]) = xs[i := l]" by (simp add: cs list_update_append1)
    moreover have "set (xs[i := l]) = insert l (set xs - {xs ! i})"
      using dx True by (rule set_update_distinct)
    moreover have "cs ! i = xs ! i" using True by (simp add: cs nth_append)
    moreover have "xs ! i \<in> set xs" using True by simp
    ultimately show ?thesis using lx by (auto simp: l cs)
  next
    case False
    with assms(1) have i: "i = length xs" by (simp add: cs)
    then have "butlast (cs[i := l]) = xs" by (simp add: cs)
    moreover have "cs ! i = l" by (simp add: cs i)
    ultimately show ?thesis using lx by (auto simp: l cs)
  qed
  show "distinct (butlast (cs[i := cs ! (length cs - 1)]))"
  proof (cases "i < length xs")
    case True
    then have "butlast (cs[i := l]) = xs[i := l]" by (simp add: cs list_update_append1)
    moreover have "distinct (xs[i := l])"
      using dx lx by (intro distinct_list_update) auto
    ultimately show ?thesis unfolding l by simp
  next
    case False
    with assms(1) have i: "i = length xs" by (simp add: cs)
    then have "butlast (cs[i := l]) = xs" by (simp add: cs)
    with dx show ?thesis unfolding l by simp
  qed
qed

lemma removeCommitment_from_found:
  assumes "distinct cs" and "c \<in> set (drop i cs)"
  shows "set (removeCommitment_from i cs c) = set cs - {c}
       \<and> distinct (removeCommitment_from i cs c)"
  using assms
proof (induction i cs c rule: removeCommitment_from.induct)
  case (1 i cs c)
  from "1.prems"(2) have i: "i < length cs" by (cases "i < length cs") auto
  show ?case
  proof (cases "cs ! i = c")
    case True
    have "removeCommitment_from i cs c = butlast (cs[i := cs ! (length cs - 1)])"
      using i True by (subst removeCommitment_from.simps) simp
    with swap_pop[OF i "1.prems"(1)] True show ?thesis by simp
  next
    case False
    have step: "removeCommitment_from i cs c = removeCommitment_from (Suc i) cs c"
      using i False by (subst removeCommitment_from.simps) simp
    have "drop i cs = cs ! i # drop (Suc i) cs" using i by (simp add: Cons_nth_drop_Suc)
    with "1.prems"(2) False have "c \<in> set (drop (Suc i) cs)" by auto
    with "1.IH"[OF i False "1.prems"(1)] step show ?thesis by simp
  qed
qed

lemma removeCommitment_found:
  assumes "distinct cs" and "c \<in> set cs"
  shows "set (removeCommitment cs c) = set cs - {c}" and "distinct (removeCommitment cs c)"
  using removeCommitment_from_found[of cs c 0] assms by (simp_all add: removeCommitment_def)

lemma ledger_inv_stake:
  assumes inv: "ledger_inv e w ps" and st: "stake e u a s w = Inr (c, w1)"
  shows "ledger_inv e w1 (ps @ [(u, a, s)])"
proof -
  from stake_InrD[OF st] obtain asset newTotal pls where
    c: "c = position_commitment e (u, a, s)"
    and fresh: "\<not> stakeCommitments w c"
    and ca: "checked_add (totalStaked w) a = Inr newTotal"
    and w1: "stakeCommitments w1 = (stakeCommitments w)(c := True)"
      "userCommitments w1 = (userCommitments w)(u := userCommitments w u @ [c])"
      "totalStaked w1 = newTotal"
    by (auto simp: position_commitment_def)
  from inv have d: "distinct (map (position_commitment e) ps)"
    and pres: "\<And>c. stakeCommitments w c \<longleftrightarrow> c \<in> position_commitment e ` set ps"
    and tot: "unat (totalStaked w) = sum_list (map position_amount ps)"
    and uc: "\<And>u. distinct (userCommitments w u)"
      "\<And>u. set (userCommitments w u) = position_commitment e ` {pos \<in> set ps. fst pos = u}"
    by (auto simp: ledger_inv_def)
  from fresh pres have notin: "c \<notin> position_commitment e ` set ps" by simp
  have 1: "distinct (map (position_commitment e) (ps @ [(u, a, s)]))"
    using d notin by (simp add: c)
  have 2: "stakeCommitments w1 c' \<longleftrightarrow> c' \<in> position_commitment e ` set (ps @ [(u, a, s)])"
    for c'
    by (auto simp: w1 pres c)
  have 3: "unat (totalStaked w1) = sum_list (map position_amount (ps @ [(u, a, s)]))"
    using checked_add_InrD[OF ca, THEN conjunct2] tot by (simp add: w1 position_amount_def)
  have 4: "distinct (userCommitments w1 u')" for u'
    using uc(1)[of u'] uc(2)[of u] notin by (auto simp: w1)
  have 5: "set (userCommitments w1 u')
         = position_commitment e ` {pos \<in> set (ps @ [(u, a, s)]). fst pos = u'}" for u'
    using uc(2)[of u'] by (auto simp: w1 c)
  from 1 2 3 4 5 show ?thesis unfolding ledger_inv_def by blast
qed

lemma ledger_inv_unstake:
  assumes inv: "ledger_inv e w ps" and un: "unstake e u a s w = Inr w1"
    and mem: "(u, a, s) \<in> set ps"
  shows "ledger_inv e w1 (remove1 (u, a, s) ps)"
proof -
  let ?c = "position_commitment e (u, a, s)"
  from unstake_InrD[OF un] obtain asset newTotal pls where
    cs: "checked_sub (totalStaked w) a = Inr newTotal"
    and w1: "stakeCommitments w1 = (stakeCommitments w)(?c := False)"
      "userCommitments w1 = (userCommitments w)(u := removeCommitment (userCommitments w u) ?c)"
      "totalStaked w1 = newTotal"
    by (auto simp: position_commitment_def)
  from inv have d: "distinct (map (position_commitment e) ps)"
    and pres: "\<And>c. stakeCommitments w c \<longleftrightarrow> c \<in> position_commitment e ` set ps"
    and tot: "unat (totalStaked w) = sum_list (map position_amount ps)"
    and uc: "\<And>u. distinct (userCommitments w u)"
      "\<And>u. set (userCommitments w u) = position_commitment e ` {pos \<in> set ps. fst pos = u}"
    by (auto simp: ledger_inv_def)
  from d have dp: "distinct ps" and inj: "inj_on (position_commitment e) (set ps)"
    by (auto simp: distinct_map)
  have rest: "set (remove1 (u, a, s) ps) = set ps - {(u, a, s)}" using dp by simp
  have img: "position_commitment e ` (A - {(u, a, s)}) = position_commitment e ` A - {?c}"
    if "A \<subseteq> set ps" for A
    using that mem inj by (auto simp: inj_on_def)
  have 1: "distinct (map (position_commitment e) (remove1 (u, a, s) ps))"
    using d by (simp add: distinct_map rest inj_on_diff)
  have 2: "stakeCommitments w1 c' \<longleftrightarrow> c' \<in> position_commitment e ` set (remove1 (u, a, s) ps)"
    for c'
    using img[of "set ps"] by (auto simp: w1 pres rest)
  have "sum_list (map position_amount ps)
      = unat a + sum_list (map position_amount (remove1 (u, a, s) ps))"
    using sum_list_map_remove1[OF mem, of position_amount] by (simp add: position_amount_def)
  then have 3: "unat (totalStaked w1) = sum_list (map position_amount (remove1 (u, a, s) ps))"
    using checked_sub_InrD[OF cs, THEN conjunct2] tot by (simp add: w1)
  have cu: "?c \<in> set (userCommitments w u)" using mem by (auto simp: uc(2))
  have 4: "distinct (userCommitments w1 u')" for u'
    using uc(1)[of u'] removeCommitment_found(2)[OF uc(1)[of u] cu] by (simp add: w1)
  have own: "{pos \<in> set (remove1 (u, a, s) ps). fst pos = u'}
           = {pos \<in> set ps. fst pos = u'} - {(u, a, s)}" for u'
    by (auto simp: rest)
  have 5: "set (userCommitments w1 u')
         = position_commitment e ` {pos \<in> set (remove1 (u, a, s) ps). fst pos = u'}" for u'
  proof (cases "u' = u")
    case True
    have "set (userCommitments w1 u) = set (userCommitments w u) - {?c}"
      using removeCommitment_found(1)[OF uc(1)[of u] cu] by (simp add: w1)
    also have "\<dots> = position_commitment e ` ({pos \<in> set ps. fst pos = u} - {(u, a, s)})"
      using img[of "{pos \<in> set ps. fst pos = u}"] by (auto simp: uc(2))
    finally show ?thesis by (simp add: own True)
  next
    case False
    then have "{pos \<in> set ps. fst pos = u'} - {(u, a, s)} = {pos \<in> set ps. fst pos = u'}"
      by auto
    with False uc(2)[of u'] show ?thesis by (simp add: own w1)
  qed
  from 1 2 3 4 5 show ?thesis unfolding ledger_inv_def by blast
qed

lemma ledger_inv_frame:
  assumes "ledger_inv e w ps"
    and "stakeCommitments w1 = stakeCommitments w" and "userCommitments w1 = userCommitments w"
    and "totalStaked w1 = totalStaked w"
  shows "ledger_inv e w1 ps"
  using assms by (simp add: ledger_inv_def)

lemma claimRewards_ledger_frame:
  assumes "claimRewards e sender amount p sg w = Inr w1"
  shows "stakeCommitments w1 = stakeCommitments w" "userCommitments w1 = userCommitments w"
    "totalStaked w1 = totalStaked w"
  using claimRewards_InrD(3)[OF assms] by auto

text \<open>A present commitment whose position is named, without collisions, is an open position.\<close>

lemma unstake_names_open_position:
  assumes inv: "ledger_inv e w ps" and un: "unstake e u a s w = Inr w1"
    and inj: "inj_on (position_commitment e) T" and sub: "set ps \<subseteq> T" and nm: "(u, a, s) \<in> T"
  shows "(u, a, s) \<in> set ps"
proof -
  from unstake_InrD(1)[OF un] have "stakeCommitments w (position_commitment e (u, a, s))"
    by (simp add: position_commitment_def)
  with inv obtain pos where pos: "pos \<in> set ps"
    and eq: "position_commitment e pos = position_commitment e (u, a, s)"
    by (auto simp: ledger_inv_def)
  from inj sub nm pos eq have "pos = (u, a, s)" by (auto simp: inj_on_def)
  with pos show ?thesis by simp
qed

lemma ledger_inv_step:
  assumes inv: "ledger_inv e w ps" and inj: "inj_on (position_commitment e) T"
    and sub: "set ps \<subseteq> T" and nm: "named t \<subseteq> T"
  shows "ledger_inv e (exec e t w) (track e t w ps) \<and> set (track e t w ps) \<subseteq> T"
proof (cases t)
  case (Stake u a s)
  show ?thesis
  proof (cases "stake e u a s w")
    case (Inl err)
    with Stake inv sub show ?thesis by (simp add: exec_def)
  next
    case (Inr r)
    then obtain c w1 where r: "stake e u a s w = Inr (c, w1)" by (cases r) auto
    from ledger_inv_stake[OF inv r] r Stake sub nm show ?thesis by (simp add: exec_def)
  qed
next
  case (Unstake u a s)
  show ?thesis
  proof (cases "unstake e u a s w")
    case (Inl err)
    with Unstake inv sub show ?thesis by (simp add: exec_def)
  next
    case (Inr w1)
    from Unstake nm have "(u, a, s) \<in> T" by simp
    from unstake_names_open_position[OF inv Inr inj sub this]
    have "(u, a, s) \<in> set ps" .
    from ledger_inv_unstake[OF inv Inr this] Inr Unstake sub show ?thesis
      by (auto simp: exec_def dest: notin_set_remove1)
  qed
next
  case (ClaimRewards u a p sg)
  show ?thesis
  proof (cases "claimRewards e u a p sg w")
    case (Inl err)
    with ClaimRewards inv sub show ?thesis by (simp add: exec_def)
  next
    case (Inr w1)
    from ledger_inv_frame[OF inv claimRewards_ledger_frame[OF Inr]] Inr ClaimRewards sub
    show ?thesis by (simp add: exec_def)
  qed
next
  case (SetTEEOracle u orc)
  show ?thesis
  proof (cases "setTEEOracle u orc w")
    case (Inl err)
    with SetTEEOracle inv sub show ?thesis by (simp add: exec_def)
  next
    case (Inr w1)
    from ledger_inv_frame[OF inv setTEEOracle_frame(3,4,5)[OF Inr]] Inr SetTEEOracle sub
    show ?thesis by (simp add: exec_def)
  qed
qed

lemma ledger_inv_run:
  assumes "ledger_inv e w ps" and "inj_on (position_commitment e) T"
    and "set ps \<subseteq> T" and "\<Union> (named ` set txs) \<subseteq> T"
  shows "ledger_inv e (run e txs w) (positions e txs w ps)"
  using assms
proof (induction txs arbitrary: w ps)
  case Nil
  then show ?case by simp
next
  case (Cons t txs)
  from Cons.prems(4) have nm: "named t \<subseteq> T" and rest: "\<Union> (named ` set txs) \<subseteq> T" by auto
  from ledger_inv_step[OF Cons.prems(1,2,3) nm]
  have "ledger_inv e (exec e t w) (track e t w ps)" and "set (track e t w ps) \<subseteq> T" by auto
  from Cons.IH[OF this(1) Cons.prems(2) this(2) rest] show ?case by simp
qed

lemma ledger_inv_deployed: "ledger_inv e (deployed d p a) []"
  by (simp add: ledger_inv_def deployed_def)

lemma count_list_distinct:
  "distinct xs \<Longrightarrow> count_list xs x = (if x \<in> set xs then 1 else 0)"
  by (induction xs) auto

text \<open>
  Claim C10, the bookkeeping invariant. Take any run of transactions on the freshly
  deployed ledger (successful stakes, unstakes and claims; a transaction that reverts
  changes nothing), and let the hash be free of collisions on the positions the run
  names. Then in the state reached \<^verbatim>\<open>totalStaked\<close> is the sum of the amounts of the
  open positions, whose commitments are pairwise different and are exactly the
  commitments marked present; every present commitment stands exactly once in exactly one
  owner's array, and the arrays hold nothing else. And a successful \<^verbatim>\<open>claimRewards\<close>
  changes neither \<^verbatim>\<open>totalStaked\<close> nor the commitment sets.
\<close>

theorem bookkeeping_invariant:
  fixes e :: env and txs :: "tx list" and d :: address and p :: pls_token and a :: erc20
  defines "w \<equiv> run e txs (deployed d p a)"
    and "ps \<equiv> positions e txs (deployed d p a) []"
  assumes inj: "inj_on (position_commitment e) (\<Union> (named ` set txs))"
  shows "unat (totalStaked w) = sum_list (map position_amount ps)
       \<and> distinct (map (position_commitment e) ps)
       \<and> (\<forall>c. stakeCommitments w c \<longleftrightarrow> c \<in> position_commitment e ` set ps)
       \<and> (\<forall>c. stakeCommitments w c \<longrightarrow>
              (\<exists>u. count_list (userCommitments w u) c = 1
                 \<and> (\<forall>u'. u' \<noteq> u \<longrightarrow> count_list (userCommitments w u') c = 0)))
       \<and> (\<forall>u c. c \<in> set (userCommitments w u) \<longrightarrow> stakeCommitments w c)
       \<and> (\<forall>v sender amount q sg v1. claimRewards e sender amount q sg v = Inr v1 \<longrightarrow>
              totalStaked v1 = totalStaked v \<and> stakeCommitments v1 = stakeCommitments v
            \<and> userCommitments v1 = userCommitments v)"
proof -
  have inv: "ledger_inv e w ps"
    unfolding w_def ps_def
    by (rule ledger_inv_run[OF ledger_inv_deployed inj]) simp_all
  then have d: "distinct (map (position_commitment e) ps)"
    and pres: "\<And>c. stakeCommitments w c \<longleftrightarrow> c \<in> position_commitment e ` set ps"
    and tot: "unat (totalStaked w) = sum_list (map position_amount ps)"
    and uc: "\<And>u. distinct (userCommitments w u)"
      "\<And>u. set (userCommitments w u) = position_commitment e ` {pos \<in> set ps. fst pos = u}"
    by (auto simp: ledger_inv_def)
  from d have injp: "inj_on (position_commitment e) (set ps)" by (simp add: distinct_map)
  have once: "\<exists>u. count_list (userCommitments w u) c = 1
                 \<and> (\<forall>u'. u' \<noteq> u \<longrightarrow> count_list (userCommitments w u') c = 0)"
    if "stakeCommitments w c" for c
  proof -
    from that pres obtain pos where pos: "pos \<in> set ps" and c: "c = position_commitment e pos"
      by auto
    have "c \<in> set (userCommitments w (fst pos))" using pos c by (auto simp: uc(2))
    then have "count_list (userCommitments w (fst pos)) c = 1"
      using uc(1)[of "fst pos"] by (simp add: count_list_distinct)
    moreover have "count_list (userCommitments w u') c = 0" if "u' \<noteq> fst pos" for u'
    proof -
      have "c \<notin> set (userCommitments w u')"
      proof
        assume "c \<in> set (userCommitments w u')"
        then obtain pos' where "pos' \<in> set ps" "fst pos' = u'"
          "position_commitment e pos' = position_commitment e pos"
          by (auto simp: uc(2) c)
        with injp pos have "pos' = pos" by (auto simp: inj_on_def)
        with \<open>fst pos' = u'\<close> that show False by simp
      qed
      then show ?thesis by (simp add: count_list_0_iff)
    qed
    ultimately show ?thesis by blast
  qed
  have listed: "stakeCommitments w c" if "c \<in> set (userCommitments w u)" for u c
    using that by (auto simp: uc(2) pres)
  have frame: "totalStaked v1 = totalStaked v \<and> stakeCommitments v1 = stakeCommitments v
            \<and> userCommitments v1 = userCommitments v"
    if "claimRewards e sender amount q sg v = Inr v1" for v sender amount q sg v1
    using claimRewards_ledger_frame[OF that] by simp
  show ?thesis
    apply (intro conjI allI impI)
    subgoal by (rule tot)
    subgoal by (rule d)
    subgoal by (rule pres)
    subgoal by (rule once)
    subgoal by (rule listed)
    subgoal using frame by blast
    subgoal using frame by blast
    subgoal using frame by blast
    done
qed

lemma demo_commitment2: "commitment_of demo_env 3 50 6 = 59"
  by (simp add: demo_eval)

lemma demo_positions:
  "positions demo_env demo_txs (deployed 1 demo_pls demo_asset) [] = [(3, 50, 6)]"
  by (simp add: demo_txs_def exec_def stake_def unstake_def claimRewards_def setTEEOracle_def
      deployed_def demo_asset_def demo_pls_def demo_self demo_commitment demo_commitment2
      demo_recover erc20_transferFrom_def erc20_transfer_def checked_add_def checked_sub_def
      pls_mint_def pls_burn_def erc20_mint_def erc20_burn_def Let_def
      removeCommitment_def)

theorem bookkeeping_invariant_witness:
  "inj_on (position_commitment demo_env) (\<Union> (named ` set demo_txs))
   \<and> positions demo_env demo_txs (deployed 1 demo_pls demo_asset) [] = [(3, 50, 6)]
   \<and> unat (totalStaked (run demo_env demo_txs (deployed 1 demo_pls demo_asset))) = 50
   \<and> stakeCommitments (run demo_env demo_txs (deployed 1 demo_pls demo_asset)) 59
   \<and> \<not> stakeCommitments (run demo_env demo_txs (deployed 1 demo_pls demo_asset)) 108
   \<and> (\<exists>u. count_list (userCommitments (run demo_env demo_txs (deployed 1 demo_pls demo_asset)) u) 59 = 1)"
proof -
  have inj: "inj_on (position_commitment demo_env) (\<Union> (named ` set demo_txs))"
    by (auto simp: inj_on_def demo_txs_def position_commitment_def demo_commitment
        demo_commitment2)
  note T = bookkeeping_invariant[OF inj, of 1 demo_pls demo_asset, unfolded demo_positions]
  have pc: "position_commitment demo_env (3, 50, 6) = 59"
    by (simp add: position_commitment_def demo_commitment2)
  have 1: "unat (totalStaked (run demo_env demo_txs (deployed 1 demo_pls demo_asset))) = 50"
    using T[THEN conjunct1] by (simp add: position_amount_def)
  have 2: "stakeCommitments (run demo_env demo_txs (deployed 1 demo_pls demo_asset)) c
           \<longleftrightarrow> c = 59" for c
    using T[THEN conjunct2, THEN conjunct2, THEN conjunct1, rule_format, of c]
    by (simp add: pc)
  have 3: "\<exists>u. count_list (userCommitments (run demo_env demo_txs
                                   (deployed 1 demo_pls demo_asset)) u) 59 = 1"
    using T[THEN conjunct2, THEN conjunct2, THEN conjunct2, THEN conjunct1, rule_format, of 59]
      2[of 59] by blast
  from inj demo_positions 1 2[of 59] 2[of 108] 3 show ?thesis by simp
qed

subsection \<open>Claims on the oracle and its client\<close>

text \<open>
  Claim C6, as the code has it. The oracle computes in binary64 and hands the reward to
  the proof encoder as a \<^verbatim>\<open>uint256\<close>. (1) For integer inputs with timestamps of
  magnitude up to \<open>2 ^ 53\<close>, \<open>\<bar>amount * baseAPY\<bar> \<le> 2 ^ 53\<close>, \<open>\<bar>timeStaked\<bar> \<le> 2 ^ 53\<close> and
  \<open>\<bar>amount * baseAPY * timeStaked\<bar> < 2 ^ 53\<close>, where
  \<open>timeStaked = currentTimestamp - stakeTimestamp\<close>, the reward computed is the floor of
  \<open>amount * baseAPY * timeStaked / (10000 * secondsPerYear)\<close> in exact arithmetic;
  \<^verbatim>\<open>calculateRewards\<close> returns it when it is not negative and the current timestamp is
  from 0 to \<open>2 ^ 53 - 1\<close>, and throws otherwise. (2) For amount 1000000, rate 520 and a
  year staked the reward returned is 52000, which is also the exact floor. (3) For
  integer inputs of magnitude up to \<open>2 ^ 256\<close>, on which no operation leaves the finite
  binary64 numbers, with a non-negative amount and rate and a negative \<open>timeStaked\<close>:
  the reward computed is negative or zero; when it is negative \<^verbatim>\<open>calculateRewards\<close>
  throws, so that a reward it returns is zero.
\<close>

theorem reward_formula:
  "(\<bar>st\<bar> \<le> 2 ^ 53 \<and> \<bar>cur\<bar> \<le> 2 ^ 53 \<and> \<bar>cur - st\<bar> \<le> 2 ^ 53 \<and> \<bar>a * apy\<bar> \<le> 2 ^ 53
      \<and> \<bar>a * apy * (cur - st)\<bar> < 2 ^ 53 \<longrightarrow>
      rewards_of (of_int a) (of_int st) (of_int cur) (of_int apy)
        = spec_reward (of_int a) (of_int apy) (of_int (cur - st))
    \<and> map_sum id rewards
        (calculateRewards e nonce (StakeData (of_int a) (of_int st) (Some u))
           (of_int cur) (of_int apy))
        = (if 0 \<le> spec_reward (of_int a) (of_int apy) (of_int (cur - st))
              \<and> 0 \<le> cur \<and> cur < 2 ^ 53
           then Inr (spec_reward (of_int a) (of_int apy) (of_int (cur - st)))
           else Inl ValueOutOfBounds))
 \<and> (0 \<le> cur' \<and> cur' < 2 ^ 53 \<longrightarrow>
      map_sum id rewards
        (calculateRewards e nonce (StakeData 1000000 (of_int (cur' - 31536000)) (Some u))
           (of_int cur') 520)
        = Inr 52000)
 \<and> spec_reward 1000000 520 31536000 = 52000
 \<and> (0 \<le> am \<and> am \<le> 2 ^ 256 \<and> 0 \<le> rate \<and> rate \<le> 2 ^ 256
      \<and> \<bar>cur2\<bar> \<le> 2 ^ 256 \<and> \<bar>st2\<bar> \<le> 2 ^ 256
      \<and> timeStaked_of (of_int cur2) (of_int st2) < 0 \<longrightarrow>
      rewards_of (of_int am) (of_int st2) (of_int cur2) (of_int rate) \<le> 0
    \<and> (rewards_of (of_int am) (of_int st2) (of_int cur2) (of_int rate) < 0 \<longrightarrow>
         isl (calculateRewards e nonce (StakeData (of_int am) (of_int st2) userAddress)
                (of_int cur2) (of_int rate)))
    \<and> (\<forall>r. calculateRewards e nonce (StakeData (of_int am) (of_int st2) userAddress)
               (of_int cur2) (of_int rate) = Inr r
           \<longrightarrow> rewards r = 0))"
proof (intro conjI impI allI)
  assume h: "\<bar>st\<bar> \<le> 2 ^ 53 \<and> \<bar>cur\<bar> \<le> 2 ^ 53 \<and> \<bar>cur - st\<bar> \<le> 2 ^ 53 \<and> \<bar>a * apy\<bar> \<le> 2 ^ 53
      \<and> \<bar>a * apy * (cur - st)\<bar> < 2 ^ 53"
  then have "rewards_of (of_int a) (of_int st) (of_int cur) (of_int apy)
           = a * apy * (cur - st) div 315360000000"
    by (intro rewards_of_exact) simp_all
  then show "rewards_of (of_int a) (of_int st) (of_int cur) (of_int apy)
        = spec_reward (of_int a) (of_int apy) (of_int (cur - st))"
    by (simp only: spec_reward_int)
  from h have "map_sum id rewards
        (calculateRewards e nonce (StakeData (of_int a) (of_int st) (Some u))
           (of_int cur) (of_int apy))
      = (if 0 \<le> a * apy * (cur - st) div 315360000000 \<and> 0 \<le> cur \<and> cur < 2 ^ 53
         then Inr (a * apy * (cur - st) div 315360000000)
         else Inl ValueOutOfBounds)"
    by (intro calculateRewards_exact) simp_all
  then show "map_sum id rewards
        (calculateRewards e nonce (StakeData (of_int a) (of_int st) (Some u))
           (of_int cur) (of_int apy))
        = (if 0 \<le> spec_reward (of_int a) (of_int apy) (of_int (cur - st))
              \<and> 0 \<le> cur \<and> cur < 2 ^ 53
           then Inr (spec_reward (of_int a) (of_int apy) (of_int (cur - st)))
           else Inl ValueOutOfBounds)"
    by (simp only: spec_reward_int)
next
  assume "0 \<le> cur' \<and> cur' < 2 ^ 53"
  then show "map_sum id rewards
        (calculateRewards e nonce (StakeData 1000000 (of_int (cur' - 31536000)) (Some u))
           (of_int cur') 520)
        = Inr 52000"
    by (intro calculateRewards_year) simp_all
next
  show "spec_reward 1000000 520 31536000 = 52000"
    using spec_reward_int[of 1000000 520 31536000] by simp
next
  assume "0 \<le> am \<and> am \<le> 2 ^ 256 \<and> 0 \<le> rate \<and> rate \<le> 2 ^ 256
      \<and> \<bar>cur2\<bar> \<le> 2 ^ 256 \<and> \<bar>st2\<bar> \<le> 2 ^ 256
      \<and> timeStaked_of (of_int cur2) (of_int st2) < 0"
  then show "rewards_of (of_int am) (of_int st2) (of_int cur2) (of_int rate) \<le> 0"
    by (intro rewards_of_nonpos) simp_all
next
  assume "rewards_of (of_int am) (of_int st2) (of_int cur2) (of_int rate) < 0"
  then show "isl (calculateRewards e nonce (StakeData (of_int am) (of_int st2) userAddress)
                (of_int cur2) (of_int rate))"
    by (rule calculateRewards_negative)
next
  fix r
  assume "0 \<le> am \<and> am \<le> 2 ^ 256 \<and> 0 \<le> rate \<and> rate \<le> 2 ^ 256
      \<and> \<bar>cur2\<bar> \<le> 2 ^ 256 \<and> \<bar>st2\<bar> \<le> 2 ^ 256
      \<and> timeStaked_of (of_int cur2) (of_int st2) < 0"
  then have le: "rewards_of (of_int am) (of_int st2) (of_int cur2) (of_int rate) \<le> 0"
    by (intro rewards_of_nonpos) simp_all
  assume "calculateRewards e nonce (StakeData (of_int am) (of_int st2) userAddress)
               (of_int cur2) (of_int rate) = Inr r"
  from calculateRewards_InrD[OF this] le show "rewards r = 0" by linarith
qed

theorem reward_formula_witness:
  "\<bar>0 :: int\<bar> \<le> 2 ^ 53 \<and> \<bar>31536000 :: int\<bar> \<le> 2 ^ 53 \<and> \<bar>31536000 - 0 :: int\<bar> \<le> 2 ^ 53
   \<and> \<bar>1000 * 520 :: int\<bar> \<le> 2 ^ 53 \<and> \<bar>1000 * 520 * (31536000 - 0) :: int\<bar> < 2 ^ 53
   \<and> rewards_of 1000 0 31536000 520 = 52
   \<and> spec_reward 1000 520 31536000 = 52
   \<and> map_sum id rewards
       (calculateRewards demo_env [] (StakeData 1000 0 (Some 3)) 31536000 520) = Inr 52
   \<and> map_sum id rewards
       (calculateRewards demo_env [] (StakeData 1000000 1700000000 (Some 3)) 1731536000 520)
       = Inr 52000
   \<and> timeStaked_of 86400 31622400 < 0
   \<and> rewards_of 1000 31622400 86400 520 < 0
   \<and> isl (calculateRewards demo_env [] (StakeData 1000 31622400 (Some 3)) 86400 520)
   \<and> map_sum id rewards
       (calculateRewards demo_env [] (StakeData 0 31622400 (Some 3)) 86400 520) = Inr 0"
proof -
  have h: "\<bar>0 :: int\<bar> \<le> 2 ^ 53 \<and> \<bar>31536000 :: int\<bar> \<le> 2 ^ 53 \<and> \<bar>31536000 - 0 :: int\<bar> \<le> 2 ^ 53
         \<and> \<bar>1000 * 520 :: int\<bar> \<le> 2 ^ 53 \<and> \<bar>1000 * 520 * (31536000 - 0) :: int\<bar> < 2 ^ 53"
    by simp
  have s: "spec_reward 1000 520 31536000 = 52"
    using spec_reward_int[of 1000 520 31536000] by simp
  note A = reward_formula[where st = 0 and cur = 31536000 and a = 1000 and apy = 520
      and e = demo_env and nonce = "[]" and u = 3, THEN conjunct1, rule_format, OF h]
  have 1: "rewards_of 1000 0 31536000 520 = 52"
    using A[THEN conjunct1] s by simp
  have 2: "map_sum id rewards
       (calculateRewards demo_env [] (StakeData 1000 0 (Some 3)) 31536000 520) = Inr 52"
    using A[THEN conjunct2] s by simp
  have 3: "map_sum id rewards
       (calculateRewards demo_env [] (StakeData 1000000 1700000000 (Some 3)) 1731536000 520)
       = Inr 52000"
    using reward_formula[where cur' = 1731536000 and e = demo_env and nonce = "[]" and u = 3,
        THEN conjunct2, THEN conjunct1]
    by simp
  have t: "timeStaked_of 86400 31622400 < 0"
    using timeStaked_of_int[of 31622400 86400] by simp
  have n: "rewards_of 1000 31622400 86400 520 = - 52"
    using rewards_of_exact[of 31622400 86400 1000 520] by simp
  have b: "(0 :: int) \<le> 1000 \<and> (1000 :: int) \<le> 2 ^ 256 \<and> (0 :: int) \<le> 520
         \<and> (520 :: int) \<le> 2 ^ 256 \<and> \<bar>86400 :: int\<bar> \<le> 2 ^ 256 \<and> \<bar>31622400 :: int\<bar> \<le> 2 ^ 256"
    by simp
  note B = reward_formula[where am = 1000 and rate = 520 and ?cur2.0 = 86400
      and ?st2.0 = 31622400 and e = demo_env and nonce = "[]" and userAddress = "Some 3",
      THEN conjunct2, THEN conjunct2, THEN conjunct2, rule_format]
  have 4: "isl (calculateRewards demo_env [] (StakeData 1000 31622400 (Some 3)) 86400 520)"
    using B b t n by simp
  have z: "rewards_of 0 31622400 86400 520 = 0"
    using rewards_of_exact[of 31622400 86400 0 520] by simp
  have 5: "map_sum id rewards
       (calculateRewards demo_env [] (StakeData 0 31622400 (Some 3)) 86400 520) = Inr 0"
    by (simp add: calculateRewards_rewards z is_safe_uint_def)
  from h s 1 2 3 t n 4 5 show ?thesis by simp
qed

text \<open>
  As claim C6 is worded, the reward equals the exact floor for every input, and a
  negative \<open>timeStaked\<close> yields a reward that is negative or zero. One token of 18
  decimals (amount \<open>10 ^ 18\<close>) staked for 30 days at rate 520: the products are beyond
  \<open>2 ^ 53\<close> and are rounded, and the reward returned is one less than the exact floor. A
  stake of 1000 at rate 520 whose stake time is a year after the current time: the reward
  computed is \<open>- 52\<close> and \<^verbatim>\<open>calculateRewards\<close> returns none, it throws. And with rate
  \<open>- 520\<close> the same negative \<open>timeStaked\<close> yields the reward 52.
\<close>

theorem reward_formula_counterexample:
  "map_sum id rewards
     (calculateRewards demo_env [] (StakeData 1000000000000000000 0 (Some 3)) 2592000 520)
     = Inr 4273972602739725
   \<and> spec_reward 1000000000000000000 520 2592000 = 4273972602739726
   \<and> timeStaked_of 86400 31622400 = - 31536000
   \<and> rewards_of 1000 31622400 86400 520 = - 52
   \<and> calculateRewards demo_env [] (StakeData 1000 31622400 (Some 3)) 86400 520
       = Inl ValueOutOfBounds
   \<and> map_sum id rewards
       (calculateRewards demo_env [] (StakeData 1000 31622400 (Some 3)) 86400 (- 520))
       = Inr 52"
proof -
  have 1: "map_sum id rewards
     (calculateRewards demo_env [] (StakeData 1000000000000000000 0 (Some 3)) 2592000 520)
     = Inr 4273972602739725"
    by (simp add: calculateRewards_rewards inexact_reward is_safe_uint_def)
  have t: "timeStaked_of 86400 31622400 = - 31536000"
    using timeStaked_of_int[of 31622400 86400] by simp
  have n: "rewards_of 1000 31622400 86400 520 = - 52"
    using rewards_of_exact[of 31622400 86400 1000 520] by simp
  have 2: "calculateRewards demo_env [] (StakeData 1000 31622400 (Some 3)) 86400 520
       = Inl ValueOutOfBounds"
    by (simp add: calculateRewards_def abi_encode_proof_def n is_safe_uint_def)
  have p: "rewards_of 1000 31622400 86400 (- 520) = 52"
    using rewards_of_exact[of 31622400 86400 1000 "- 520"] by simp
  have 3: "map_sum id rewards
       (calculateRewards demo_env [] (StakeData 1000 31622400 (Some 3)) 86400 (- 520))
       = Inr 52"
    by (simp add: calculateRewards_rewards p is_safe_uint_def)
  from 1 exact_reward t n 2 3 show ?thesis by simp
qed

text \<open>
  Claim C7, as the code has it. When the library reads the three values as
  \<^verbatim>\<open>(uint256 amount, bytes32 salt, address owner)\<close>, \<^verbatim>\<open>verifyCommitment\<close> returns, and it
  returns true exactly when the commitment it is given is the text of the hash of their
  tightly packed encoding: \<^verbatim>\<open>0x\<close> and the 64 hexadecimal digits in lower case. That hash
  is the commitment the ledger's \<^verbatim>\<open>stake\<close> computes and returns, and its text names it and
  no other hash. On a text that names the hash in another spelling the answer is false.
  When the library does not accept one of the three values, or there is nothing to
  destructure, \<^verbatim>\<open>verifyCommitment\<close> throws and returns neither true nor false. The
  predicate is a function of its arguments alone: it takes no state and returns none.
\<close>

theorem verifyCommitment_agrees_with_stake:
  "(read_uint256 lib amount = Inr a \<and> read_bytes32 lib salt = Inr s
      \<and> read_address lib userAddress = Inr u \<longrightarrow>
      verifyCommitment lib e commitment (RevealData amount salt userAddress)
        = Inr (commitment = JString (hex_of_bytes32 (spec_commitment_hash e a s u)))
    \<and> (stake e u a s w = Inr (c', w1) \<longrightarrow>
         c' = spec_commitment_hash e a s u
       \<and> verifyCommitment lib e commitment (RevealData amount salt userAddress)
           = Inr (commitment = JString (hex_of_bytes32 c')))
    \<and> (bytes32_of_hex t = Some (spec_commitment_hash e a s u)
         \<and> t \<noteq> hex_of_bytes32 (spec_commitment_hash e a s u) \<longrightarrow>
         verifyCommitment lib e (JString t) (RevealData amount salt userAddress) = Inr False))
 \<and> commitment_of e u a s = spec_commitment_hash e a s u
 \<and> (hex_of_bytes32 h = hex_of_bytes32 h' \<longrightarrow> h = h')
 \<and> bytes32_of_hex (hex_of_bytes32 h) = Some h
 \<and> (isl (read_uint256 lib amount) \<or> isl (read_bytes32 lib salt)
      \<or> isl (read_address lib userAddress) \<longrightarrow>
      isl (verifyCommitment lib e commitment (RevealData amount salt userAddress)))
 \<and> verifyCommitment lib e commitment NullReveal = Inl TypeError"
proof -
  have 2: "commitment_of e u a s = spec_commitment_hash e a s u"
    by (simp add: commitment_of_def spec_commitment_hash_def encodePacked_def)
  have 1: "verifyCommitment lib e c (RevealData amount salt userAddress)
        = Inr (c = JString (hex_of_bytes32 (spec_commitment_hash e a s u)))"
    if "read_uint256 lib amount = Inr a \<and> read_bytes32 lib salt = Inr s
      \<and> read_address lib userAddress = Inr u" for c
    using that
    by (simp add: verifyCommitment_def solidityPacked_commitment_read spec_commitment_hash_def)
  have 3: "c' = spec_commitment_hash e a s u" if "stake e u a s w = Inr (c', w1)"
    using stake_InrD(2)[OF that] 2 by simp
  have 4: "isl (verifyCommitment lib e commitment (RevealData amount salt userAddress))"
    if "isl (read_uint256 lib amount) \<or> isl (read_bytes32 lib salt)
      \<or> isl (read_address lib userAddress)"
    using solidityPacked_commitment_throws[OF that]
    by (auto simp: verifyCommitment_def split: sum.splits)
  have 5: "verifyCommitment lib e commitment NullReveal = Inl TypeError"
    by (simp add: verifyCommitment_def)
  show ?thesis
    apply (intro conjI impI)
    subgoal by (rule 1)
    subgoal by (rule 3)
    subgoal using 1 3 by simp
    subgoal using 1 by simp
    subgoal by (rule 2)
    subgoal by (rule hex_of_bytes32_inj)
    subgoal by (rule bytes32_of_hex_text)
    subgoal by (rule 4)
    subgoal by (rule 5)
    done
qed

theorem verifyCommitment_agrees_with_stake_witness:
  "stake demo_env 3 100 5 demo_world = Inr (108, demo_staked)
   \<and> read_uint256 demo_ethers (JNumber 100) = Inr 100
   \<and> read_bytes32 demo_ethers (JString demo_salt_text) = Inr 5
   \<and> read_address demo_ethers (JString demo_owner_text) = Inr 3
   \<and> spec_commitment_hash demo_env 100 5 3 = 108
   \<and> hex_of_bytes32 108 = demo_commitment_text
   \<and> verifyCommitment demo_ethers demo_env (JString demo_commitment_text) demo_reveal = Inr True
   \<and> verifyCommitment demo_ethers demo_env (JString demo_salt_text) demo_reveal = Inr False
   \<and> verifyCommitment demo_ethers demo_env (JNumber 108) demo_reveal = Inr False
   \<and> bytes32_of_hex demo_commitment_capital = Some 108
   \<and> demo_commitment_capital \<noteq> hex_of_bytes32 108
   \<and> verifyCommitment demo_ethers demo_env (JString demo_commitment_capital) demo_reveal
       = Inr False
   \<and> hex_of_bytes32 108 \<noteq> hex_of_bytes32 40
   \<and> isl (read_uint256 demo_ethers (JString ''100''))
   \<and> isl (verifyCommitment demo_ethers demo_env (JString demo_commitment_text)
            (RevealData (JString ''100'') (JString demo_salt_text) (JString demo_owner_text)))"
proof -
  note T = verifyCommitment_agrees_with_stake[where lib = demo_ethers and e = demo_env
      and amount = "JNumber 100" and salt = "JString demo_salt_text"
      and userAddress = "JString demo_owner_text" and a = 100 and s = 5 and u = 3
      and w = demo_world and c' = 108 and ?w1.0 = demo_staked
      and t = demo_commitment_capital]
  have r: "read_uint256 demo_ethers (JNumber 100) = Inr 100
         \<and> read_bytes32 demo_ethers (JString demo_salt_text) = Inr 5
         \<and> read_address demo_ethers (JString demo_owner_text) = Inr 3"
    using demo_reads by simp
  note U = T[THEN conjunct1, rule_format, OF r]
  from U[THEN conjunct2, THEN conjunct1, rule_format, OF demo_stake]
  have c: "(108 :: bytes32) = spec_commitment_hash demo_env 100 5 3"
    and v: "verifyCommitment demo_ethers demo_env commitment demo_reveal
          = Inr (commitment = JString (hex_of_bytes32 108))" for commitment
    unfolding demo_reveal_def by simp_all
  have k: "bytes32_of_hex demo_commitment_capital = Some 108"
    by (rule demo_texts)
  have d': "demo_commitment_capital \<noteq> hex_of_bytes32 108"
    by (simp add: demo_commitment_hex demo_commitment_capital_def demo_commitment_text_def)
  have f: "verifyCommitment demo_ethers demo_env (JString demo_commitment_capital) demo_reveal
       = Inr False"
    using U[THEN conjunct2, THEN conjunct2] k d' c[symmetric]
    unfolding demo_reveal_def by simp
  have i: "hex_of_bytes32 (108 :: bytes32) \<noteq> hex_of_bytes32 40"
    using verifyCommitment_agrees_with_stake[where h = 108 and h' = 40,
        THEN conjunct2, THEN conjunct2, THEN conjunct1]
    by auto
  have x: "isl (read_uint256 demo_ethers (JString ''100''))"
    by (simp add: demo_ethers_def)
  from verifyCommitment_agrees_with_stake[where lib = demo_ethers and e = demo_env
      and amount = "JString ''100''" and salt = "JString demo_salt_text"
      and userAddress = "JString demo_owner_text"
      and commitment = "JString demo_commitment_text",
      THEN conjunct2, THEN conjunct2, THEN conjunct2, THEN conjunct2, THEN conjunct1] x
  have t: "isl (verifyCommitment demo_ethers demo_env (JString demo_commitment_text)
            (RevealData (JString ''100'') (JString demo_salt_text) (JString demo_owner_text)))"
    by simp
  have d: "demo_salt_text \<noteq> demo_commitment_text"
    by (simp add: demo_salt_text_def demo_commitment_text_def)
  from demo_stake r c[symmetric] v x t d k d' f i show ?thesis
    by (simp add: demo_commitment_hex)
qed

text \<open>
  As claim C7 is worded, the predicate is true for every commitment that equals the hash,
  whatever the amount, salt and owner. Account 3's stake of 100 with salt 5 has recorded
  the commitment 108, in hexadecimal \<open>6c\<close>. Given that commitment written with a capital
  \<open>C\<close>, which names the same 32 bytes, \<^verbatim>\<open>verifyCommitment\<close> returns false. And for the
  amount \<open>2 ^ 53\<close> given as a number, for which the ledger computes the commitment 40, in
  hexadecimal \<open>28\<close>, it does not return true on that commitment: the library throws.
\<close>

theorem verifyCommitment_spelling_counterexample:
  "stake demo_env 3 100 5 demo_world = Inr (108, demo_staked)
   \<and> demo_reveal = RevealData (JNumber 100) (JString demo_salt_text) (JString demo_owner_text)
   \<and> bytes32_of_hex demo_salt_text = Some 5
   \<and> bytes_of_hex 20 demo_owner_text = Some (be_bytes 20 3)
   \<and> hex_of_bytes32 108 = demo_commitment_text
   \<and> bytes32_of_hex demo_commitment_capital = Some 108
   \<and> verifyCommitment demo_ethers demo_env (JString demo_commitment_text) demo_reveal = Inr True
   \<and> verifyCommitment demo_ethers demo_env (JString demo_commitment_capital) demo_reveal
       = Inr False
   \<and> commitment_of demo_env 3 9007199254740992 5 = 40
   \<and> hex_of_bytes32 40 = demo_large_text
   \<and> verifyCommitment demo_ethers demo_env (JString demo_large_text) demo_large_reveal
       = Inl ValueOutOfBounds"
proof -
  have v: "verifyCommitment demo_ethers demo_env commitment demo_reveal
          = Inr (commitment = JString demo_commitment_text)" for commitment
    by (rule demo_verify)
  have d: "demo_commitment_capital \<noteq> demo_commitment_text"
    by (simp add: demo_commitment_capital_def demo_commitment_text_def)
  from demo_stake v d show ?thesis
    by (simp add: demo_reveal_def demo_texts demo_commitment_hex demo_large_commitment
        demo_large_hex demo_large_throws)
qed

text \<open>
  Claim C8 says that in the bulk computation a failure on one element never aborts the
  others. An element that is \<^verbatim>\<open>null\<close> does: the per-element handler itself throws
  on \<^verbatim>\<open>stakeData.userAddress\<close>. The theorem evaluates the bulk action on a well-formed
  entry followed by \<^verbatim>\<open>null\<close>: there is no per-element list and no summary, only the
  error, though the first entry alone is computed without fault.
\<close>

theorem bulk_aborts_on_null_element:
  "bulk_calculate_rewards e rand now (Some [StakeData 1000000 0 (Some 3), Null]) 31536000 520
     = Inl TypeError
 \<and> bulk_element e (rand 0) (StakeData 1000000 0 (Some 3)) 31536000 520
     = Inr (BulkSuccess (Some 3)
             \<lparr>rewards = 52000,
              proofHash = keccak256 e
                (be_bytes 32 3 @ be_bytes 32 52000 @ be_bytes 32 31536000
                 @ be_bytes 32 128 @ be_bytes 32 (length (rand 0)) @ rand 0
                 @ replicate ((32 - length (rand 0) mod 32) mod 32) 0),
              proofData = (Some 3, 52000, 31536000, rand 0)\<rparr>)"
proof -
  have r: "rewards_of 1000000 0 31536000 520 = 52000"
    by (rule year_reward0)
  have ok: "bulk_element e (rand 0) (StakeData 1000000 0 (Some 3)) 31536000 520
     = Inr (BulkSuccess (Some 3)
             \<lparr>rewards = 52000,
              proofHash = keccak256 e
                (be_bytes 32 3 @ be_bytes 32 52000 @ be_bytes 32 31536000
                 @ be_bytes 32 128 @ be_bytes 32 (length (rand 0)) @ rand 0
                 @ replicate ((32 - length (rand 0) mod 32) mod 32) 0),
              proofData = (Some 3, 52000, 31536000, rand 0)\<rparr>)"
    by (simp add: bulk_element_def calculateRewards_def abi_encode_proof_def is_safe_uint_def r)
  have null: "bulk_element e n Null 31536000 520 = Inl TypeError" for n
    by (simp add: bulk_element_def calculateRewards_def)
  from ok null show ?thesis
    by (simp add: bulk_calculate_rewards_def)
qed

text \<open>
  Claim C9 says that no operation of the client returns a fallback result without an
  indication. \<^verbatim>\<open>calculateRewardsInTEE\<close> marks its fallback with \<^verbatim>\<open>isMock\<close>;
  \<^verbatim>\<open>verifyCommitmentInTEE\<close> and \<^verbatim>\<open>generateAggregateProofInTEE\<close> do not: when the host
  is not configured or the exchange fails, the first answers \<^verbatim>\<open>true\<close>, which is also
  what a verified commitment gives, and the second the zero aggregate, which is also what
  the host gives for no stakes.
\<close>

theorem client_fallback_not_flagged:
  "verifyCommitmentInTEE \<lparr>iappAddress = ''0xB9B3'', forceRealTEE = False\<rparr> (Inl (Error ''unreachable''))
     = verifyCommitmentInTEE \<lparr>iappAddress = ''0xB9B3'', forceRealTEE = False\<rparr> (Inr True)
 \<and> verifyCommitmentInTEE \<lparr>iappAddress = [], forceRealTEE = False\<rparr> (Inr False) = True
 \<and> generateAggregateProofInTEE \<lparr>iappAddress = ''0xB9B3'', forceRealTEE = False\<rparr>
       (Inl (Error ''unreachable''))
     = generateAggregateProofInTEE \<lparr>iappAddress = ''0xB9B3'', forceRealTEE = False\<rparr>
       (Inr (''0'', 0, 0))
 \<and> map_sum id isMock
       (calculateRewardsInTEE \<lparr>iappAddress = ''0xB9B3'', forceRealTEE = False\<rparr>
          (Inl (Error ''unreachable'')) e 31536000 stamp (StakeData 1000000 0 (Some 3)) 520)
     = Inr True"
proof -
  have r: "rewards_of 1000000 0 31536000 520 = 52000"
    by (rule year_reward0)
  show ?thesis
    by (simp add: verifyCommitmentInTEE_def generateAggregateProofInTEE_def
        calculateRewardsInTEE_def mockTEEComputation_def abi_encode_mock_def is_safe_uint_def r)
qed

subsection \<open>Further properties of the oracle and its client\<close>

lemma bulk_element_not_null:
  "stakeData \<noteq> Null \<Longrightarrow> \<exists>r. bulk_element e nonce stakeData timestamp apy = Inr r"
  by (cases stakeData) (auto simp: bulk_element_def split: sum.splits)

lemma bulk_map_without_null:
  assumes "Null \<notin> set sds"
  shows "\<exists>rs. bulk_map e rand k sds timestamp apy = Inr rs \<and> length rs = length sds
           \<and> (\<forall>i < length sds.
                 bulk_element e (rand (k + i)) (sds ! i) timestamp apy = Inr (rs ! i))"
  using assms
proof (induction sds arbitrary: k)
  case Nil
  show ?case by simp
next
  case (Cons sd sds)
  from Cons.prems have "sd \<noteq> Null" and rest: "Null \<notin> set sds" by auto
  from bulk_element_not_null[OF this(1)] obtain r where
    r: "bulk_element e (rand k) sd timestamp apy = Inr r" by blast
  from Cons.IH[OF rest, of "Suc k"] obtain rs where
    rs: "bulk_map e rand (Suc k) sds timestamp apy = Inr rs" "length rs = length sds"
      "\<forall>i < length sds. bulk_element e (rand (Suc k + i)) (sds ! i) timestamp apy = Inr (rs ! i)"
    by blast
  have "bulk_map e rand k (sd # sds) timestamp apy = Inr (r # rs)" by (simp add: r rs(1))
  moreover have "length (r # rs) = length (sd # sds)" by (simp add: rs(2))
  moreover have "bulk_element e (rand (k + i)) ((sd # sds) ! i) timestamp apy
               = Inr ((r # rs) ! i)" if "i < length (sd # sds)" for i
  proof (cases i)
    case 0
    then show ?thesis by (simp add: r)
  next
    case (Suc j)
    with that rs(3) show ?thesis by simp
  qed
  ultimately show ?case by blast
qed

text \<open>
  Where no element is \<^verbatim>\<open>null\<close>, the bulk computation keeps the elements apart: it
  returns one entry per element, each entry being what that element alone produces
  (a reward, or the failure with its reason), and a summary whose total is the number
  of elements and whose successes and failures add up to it.
\<close>

theorem bulk_isolates_failures_without_null:
  assumes "Null \<notin> set sds" and "timestamp \<noteq> 0" and "apy \<noteq> 0"
  shows "\<exists>rs s. bulk_calculate_rewards e rand now (Some sds) timestamp apy
                  = Inr (BulkResults rs s)
           \<and> length rs = length sds
           \<and> (\<forall>i < length sds.
                 bulk_element e (rand i) (sds ! i) timestamp apy = Inr (rs ! i))
           \<and> total s = length sds
           \<and> successful s = length (filter is_success rs)
           \<and> successful s + failed s = total s"
proof -
  from bulk_map_without_null[OF assms(1), of e rand 0 timestamp apy] obtain rs where
    rs: "bulk_map e rand 0 sds timestamp apy = Inr rs" "length rs = length sds"
      "\<forall>i < length sds. bulk_element e (rand i) (sds ! i) timestamp apy = Inr (rs ! i)"
    by auto
  have "length (filter is_success rs) \<le> length sds"
    using length_filter_le[of is_success rs] by (simp add: rs(2))
  with rs assms(2,3) show ?thesis
    by (simp add: bulk_calculate_rewards_def Let_def)
qed

theorem bulk_isolates_failures_without_null_witness:
  "\<exists>r. bulk_calculate_rewards demo_env (\<lambda>i. []) 0
          (Some [StakeData 1000000 0 (Some 3), StakeData 5 0 None]) 31536000 520
        = Inr (BulkResults [BulkSuccess (Some 3) r, BulkFailure None InvalidAddress]
                 \<lparr>total = 2, successful = 1, failed = 1, totalRewards = 52000\<rparr>)
      \<and> rewards r = 52000"
proof -
  have n: "Null \<notin> set [StakeData 1000000 0 (Some 3), StakeData 5 0 None]" by simp
  from bulk_isolates_failures_without_null[OF n, of 31536000 520 demo_env "\<lambda>i. []" 0]
  obtain rs s where
    out: "bulk_calculate_rewards demo_env (\<lambda>i. []) 0
            (Some [StakeData 1000000 0 (Some 3), StakeData 5 0 None]) 31536000 520
          = Inr (BulkResults rs s)"
    by auto
  have r: "rewards_of 1000000 0 31536000 520 = 52000" by (rule year_reward0)
  have "js_add 0 52000 = 52000" by (simp add: js_add_def)
  then have ev: "\<exists>r. bulk_calculate_rewards demo_env (\<lambda>i. []) 0
          (Some [StakeData 1000000 0 (Some 3), StakeData 5 0 None]) 31536000 520
        = Inr (BulkResults [BulkSuccess (Some 3) r, BulkFailure None InvalidAddress]
                 \<lparr>total = 2, successful = 1, failed = 1, totalRewards = 52000\<rparr>)
      \<and> rewards r = 52000"
    by (simp add: bulk_calculate_rewards_def bulk_element_def calculateRewards_def
        abi_encode_proof_def is_safe_uint_def r Let_def)
  from out ev show ?thesis by blast
qed

text \<open>
  \<^verbatim>\<open>calculateRewardsInTEE\<close> marks its result: \<^verbatim>\<open>isMock\<close> is set exactly when the
  result was computed by the local fallback, that is when the host is not configured
  or the remote exchange failed.
\<close>

theorem calculateRewardsInTEE_flags_fallback:
  assumes "calculateRewardsInTEE cfg remote e now stamp stakeData baseAPY = Inr r"
  shows "isMock r \<longleftrightarrow> iappAddress cfg = [] \<or> (\<exists>err. remote = Inl err)"
  using assms
  by (auto simp: calculateRewardsInTEE_def mockTEEComputation_def Let_def
      split: if_splits sum.splits stake_data.splits prod.splits)

theorem calculateRewardsInTEE_flags_fallback_witness:
  "\<exists>r. calculateRewardsInTEE \<lparr>iappAddress = ''0xB9B3'', forceRealTEE = False\<rparr>
          (Inl (Error ''unreachable'')) demo_env 31536000 ''1'' (StakeData 1000000 0 (Some 3)) 520
        = Inr r \<and> isMock r \<and> result_rewards r = 52000"
proof -
  have r: "rewards_of 1000000 0 31536000 520 = 52000" by (rule year_reward0)
  have "\<exists>r. calculateRewardsInTEE \<lparr>iappAddress = ''0xB9B3'', forceRealTEE = False\<rparr>
          (Inl (Error ''unreachable'')) demo_env 31536000 ''1'' (StakeData 1000000 0 (Some 3)) 520
        = Inr r \<and> result_rewards r = 52000"
    by (simp add: calculateRewardsInTEE_def mockTEEComputation_def abi_encode_mock_def
        is_safe_uint_def r)
  then obtain r where
    ok: "calculateRewardsInTEE \<lparr>iappAddress = ''0xB9B3'', forceRealTEE = False\<rparr>
          (Inl (Error ''unreachable'')) demo_env 31536000 ''1'' (StakeData 1000000 0 (Some 3)) 520
        = Inr r" and v: "result_rewards r = 52000"
    by blast
  from calculateRewardsInTEE_flags_fallback[OF ok] have "isMock r" by simp
  with ok v show ?thesis by blast
qed

end
